theory Spec2Isabelle
  imports Complex_Main "HOL-Library.Word" "HOL-Library.Signed_Division" "HOL-Library.Multiset"
begin

text \<open>
  A shallow embedding of the load generator and of the workload executor it drives:
  the collector and its statistics (package \<open>results\<close>), the executor (package
  \<open>logic\<close>), and the worker and the phases of the runner (package \<open>runner\<close>).
  Definitions come first, in the order of the packages; the properties follow.
\<close>

section \<open>Package results: the collector and its statistics\<close>

text \<open>
  Go's \<open>float64\<close> is idealised: a finite value is a real number and finite arithmetic is
  exact (rounding is not modelled). What IEEE 754 adds to the reals is kept where the
  code can produce it, namely in a division whose divisor may be zero: the quotient is
  then an infinity or NaN, not a number.
\<close>

datatype float64 = Finite real | PosInf | NegInf | NaN

definition fdiv :: "real \<Rightarrow> real \<Rightarrow> float64" where
  "fdiv x y =
     (if y \<noteq> 0 then Finite (x / y)
      else if 0 < x then PosInf
      else if x < 0 then NegInf
      else NaN)"

text \<open>\<open>time.Duration\<close> is an \<open>int64\<close> count of nanoseconds; \<open>time.Time\<close> is read as
  nanoseconds since the epoch.\<close>

type_synonym Duration = "64 word"

definition Seconds :: "Duration \<Rightarrow> real" where
  "Seconds d = real_of_int (sint d) / 1000000000"

record RequestResult =
  StartTime :: int
  EndTime :: int
  LatencyMs :: real
  Success :: bool
  Error :: string

record AggregatedStats =
  TotalRequests :: nat
  SuccessfulRequests :: nat
  FailedRequests :: nat
  RPS :: float64
  P50 :: float64
  P90 :: float64
  P95 :: float64
  P99 :: float64
  Mean :: float64
  Min :: float64
  Max :: float64
  ErrorRate :: float64

record Collector =
  results :: "RequestResult list"

definition NewCollector :: Collector where
  "NewCollector = \<lparr>results = []\<rparr>"

definition Add :: "Collector \<Rightarrow> RequestResult \<Rightarrow> Collector" where
  "Add c r = c\<lparr>results := results c @ [r]\<rparr>"

text \<open>The zero value \<open>AggregatedStats{}\<close>.\<close>

definition zero_stats :: AggregatedStats where
  "zero_stats =
     \<lparr>TotalRequests = 0, SuccessfulRequests = 0, FailedRequests = 0, RPS = Finite 0,
      P50 = Finite 0, P90 = Finite 0, P95 = Finite 0, P99 = Finite 0,
      Mean = Finite 0, Min = Finite 0, Max = Finite 0, ErrorRate = Finite 0\<rparr>"

text \<open>Indexing a slice panics out of range; \<open>None\<close> is the panic.\<close>

definition index :: "'a list \<Rightarrow> int \<Rightarrow> 'a option" where
  "index xs i = (if 0 \<le> i \<and> i < int (length xs) then Some (xs ! nat i) else None)"

definition percentile :: "real list \<Rightarrow> real \<Rightarrow> real option" where
  "percentile sorted_data p =
     (if length sorted_data = 0 then Some 0
      else
        let idx = (p / 100) * real (length sorted_data - 1);
            lower = \<lfloor>idx\<rfloor>;
            upper = \<lceil>idx\<rceil>
        in if lower = upper then index sorted_data lower
           else
             let weight = idx - real_of_int lower
             in case index sorted_data lower of
                  None \<Rightarrow> None
                | Some a \<Rightarrow>
                    (case index sorted_data upper of
                       None \<Rightarrow> None
                     | Some b \<Rightarrow> Some (a * (1 - weight) + b * weight)))"

text \<open>The summing loop of \<open>mean\<close>, from \<open>sum := 0.0\<close>.\<close>

definition mean :: "real list \<Rightarrow> real" where
  "mean data = (if length data = 0 then 0 else foldl (+) 0 data / real (length data))"

text \<open>The loop of \<open>Aggregate\<close> over \<open>c.results\<close>, carrying \<open>successLatencies\<close>,
  \<open>successCount\<close> and \<open>failCount\<close>.\<close>

fun separate :: "RequestResult list \<Rightarrow> real list \<times> nat \<times> nat \<Rightarrow> real list \<times> nat \<times> nat" where
  "separate [] acc = acc"
| "separate (r # rs) (lat, sc, fc) =
     (if Success r then separate rs (lat @ [LatencyMs r], Suc sc, fc)
      else separate rs (lat, sc, Suc fc))"

definition Aggregate :: "Collector \<Rightarrow> Duration \<Rightarrow> AggregatedStats option" where
  "Aggregate c duration =
     (if length (results c) = 0 then Some zero_stats
      else
        (case separate (results c) ([], 0, 0) of
           (successLatencies, successCount, failCount) \<Rightarrow>
             (let stats = zero_stats
                    \<lparr>TotalRequests := length (results c),
                     SuccessfulRequests := successCount,
                     FailedRequests := failCount,
                     RPS := fdiv (real successCount) (Seconds duration),
                     ErrorRate := fdiv (real failCount) (real (length (results c)))\<rparr>
              in if length successLatencies = 0 then Some stats
                 else
                   (let srt = sort successLatencies
                    in (case percentile srt 50 of None \<Rightarrow> None | Some p50 \<Rightarrow>
                       (case percentile srt 90 of None \<Rightarrow> None | Some p90 \<Rightarrow>
                       (case percentile srt 95 of None \<Rightarrow> None | Some p95 \<Rightarrow>
                       (case percentile srt 99 of None \<Rightarrow> None | Some p99 \<Rightarrow>
                       (case index srt 0 of None \<Rightarrow> None | Some mn \<Rightarrow>
                       (case index srt (int (length srt) - 1) of None \<Rightarrow> None | Some mx \<Rightarrow>
                          Some (stats\<lparr>P50 := Finite p50, P90 := Finite p90, P95 := Finite p95,
                                      P99 := Finite p99, Min := Finite mn, Max := Finite mx,
                                      Mean := Finite (mean srt)\<rparr>)))))))))))"

subsection \<open>The collectors built by the package's tests\<close>

text \<open>\<open>TestCollector_Aggregate\<close> adds 100 successes with latencies 1 to 100 ms, then
  10 failures; \<open>TestCollector_OnlyFailures\<close> adds 5 failures. The tests read the wall
  clock for the time stamps: \<open>ticks k\<close> is its \<open>k\<close>-th reading.\<close>

definition ok_result :: "(nat \<Rightarrow> int) \<Rightarrow> nat \<Rightarrow> RequestResult" where
  "ok_result ticks i =
     \<lparr>StartTime = ticks (2 * i), EndTime = ticks (2 * i + 1) + (int i + 1) * 1000000,
      LatencyMs = real (i + 1), Success = True, Error = []\<rparr>"

definition failed_result :: "(nat \<Rightarrow> int) \<Rightarrow> nat \<Rightarrow> RequestResult" where
  "failed_result ticks i =
     \<lparr>StartTime = ticks (200 + 2 * i), EndTime = ticks (200 + 2 * i + 1),
      LatencyMs = 0, Success = False, Error = ''test error''\<rparr>"

definition test_collector :: "(nat \<Rightarrow> int) \<Rightarrow> Collector" where
  "test_collector ticks =
     foldl Add (foldl Add NewCollector (map (ok_result ticks) [0..<100]))
       (map (failed_result ticks) [0..<10])"

definition only_failure :: RequestResult where
  "only_failure = \<lparr>StartTime = 0, EndTime = 0, LatencyMs = 0, Success = False, Error = ''error''\<rparr>"

definition only_failures_collector :: Collector where
  "only_failures_collector = foldl Add NewCollector (replicate 5 only_failure)"

section \<open>Package logic: the workload executor\<close>

text \<open>
  Go's \<open>int\<close> is read as the 64-bit signed integer of the usual platforms, a
  \<open>64 word\<close> whose value is \<open>sint\<close>; arithmetic on it wraps. The quotient \<open>/\<close>
  truncates towards zero.
\<close>

type_synonym go_int = "64 word"
type_synonym byte = "8 word"

definition go_div :: "go_int \<Rightarrow> go_int \<Rightarrow> go_int" where
  "go_div a b = word_of_int (sint a sdiv sint b)"

subsection \<open>What the executor takes from outside\<close>

text \<open>
  The wall clock and \<open>time.Sleep\<close> are the executor's effects. The world records how
  often the clock has been read and which durations have been slept; \<open>clock w k\<close> is
  the clock's \<open>k\<close>-th reading in nanoseconds, about which nothing is assumed.
\<close>

record world =
  clock :: "nat \<Rightarrow> int"
  reads :: nat
  slept :: "Duration list"

definition Now :: "world \<Rightarrow> int \<times> world" where
  "Now w = (clock w (reads w), w\<lparr>reads := Suc (reads w)\<rparr>)"

definition Sleep :: "Duration \<Rightarrow> world \<Rightarrow> world" where
  "Sleep d w = w\<lparr>slept := slept w @ [d]\<rparr>"

text \<open>The value \<open>generatePayload\<close> returns, a map with the three keys \<open>data\<close>,
  \<open>size\<close> and \<open>timestamp\<close>.\<close>

record Payload =
  payload_data :: string
  payload_size :: go_int
  payload_timestamp :: int

text \<open>
  Library functions are parameters: \<open>sha256.Sum256\<close> (which returns 32 bytes),
  \<open>json.Marshal\<close> and \<open>json.Unmarshal\<close> on a payload, and the RFC 3339 layout of a time.
  So is the memory of the process: \<open>alloc_limit\<close> is the largest number of bytes for
  which the payload block gets its slice. It is never more than \<open>2^48\<close> on the 64-bit
  platforms, where \<open>make\<close> panics on a greater length, and it is less where memory is
  short. A call that panics, or during which the process dies, does not return: its
  value is \<open>None\<close>.
\<close>

record externals =
  Sum256 :: "byte list \<Rightarrow> byte list"
  Marshal :: "Payload \<Rightarrow> byte list"
  Unmarshal :: "byte list \<Rightarrow> Payload option"
  RFC3339Nano :: "int \<Rightarrow> string"
  alloc_limit :: nat

subsection \<open>Formatting\<close>

definition digit_char :: "nat \<Rightarrow> char" where
  "digit_char d = ''0123456789'' ! d"

function decimal_nat :: "nat \<Rightarrow> string" where
  "decimal_nat n = (if n < 10 then [digit_char n] else decimal_nat (n div 10) @ [digit_char (n mod 10)])"
  by pat_completeness auto
termination
  by (relation "measure id") auto

text \<open>The verb \<open>%d\<close> on an integer.\<close>

definition decimal :: "int \<Rightarrow> string" where
  "decimal i = (if i < 0 then CHR ''-'' # decimal_nat (nat (- i)) else decimal_nat (nat i))"

definition hex_char :: "nat \<Rightarrow> char" where
  "hex_char d = ''0123456789abcdef'' ! d"

text \<open>The verb \<open>%x\<close> on a byte slice: two lower-case digits for each byte.\<close>

definition hex :: "byte list \<Rightarrow> string" where
  "hex bs = concat (map (\<lambda>b. [hex_char (unat b div 16), hex_char (unat b mod 16)]) bs)"

subsection \<open>The workloads\<close>

type_synonym Mode = string

definition ModeCPU :: Mode where "ModeCPU = ''cpu''"
definition ModeIO :: Mode where "ModeIO = ''io''"

record Request =
  RequestID :: string
  Mode :: Mode
  WorkFactor :: go_int
  PayloadSizeBytes :: go_int

record Response =
  resp_RequestID :: string
  resp_Mode :: Mode
  resp_WorkFactor :: go_int
  resp_PayloadSizeBytes :: go_int
  Result :: string
  ServerProcessingMs :: real
  Protocol :: string
  Timestamp :: string

text \<open>The length of the data of a payload: half the requested size, at least one.\<close>

definition data_size :: "go_int \<Rightarrow> go_int" where
  "data_size sizeBytes =
     (let dataSize = go_div sizeBytes 2
      in if sint dataSize < 1 then 1 else dataSize)"

text \<open>\<open>generatePayload\<close>: a slice of that length is made, which panics beyond the limit,
  and filled with the letters A to Z in turn; then the clock is read, in seconds.\<close>

definition generatePayload :: "externals \<Rightarrow> go_int \<Rightarrow> world \<Rightarrow> (Payload \<times> world) option" where
  "generatePayload ext sizeBytes w =
     (let dataSize = data_size sizeBytes
      in if alloc_limit ext < nat (sint dataSize) then None
         else
           (let data = map (\<lambda>i. char_of (65 + i mod 26)) [0..<nat (sint dataSize)];
                (now, w') = Now w
            in Some (\<lparr>payload_data = data, payload_size = sizeBytes,
                      payload_timestamp = now div 1000000000\<rparr>, w')))"

text \<open>The optional block of both loops: a payload is generated, marshalled and
  unmarshalled, and all three values are dropped.\<close>

definition payload_overhead :: "externals \<Rightarrow> go_int \<Rightarrow> world \<Rightarrow> world option" where
  "payload_overhead ext payloadSize w =
     (case generatePayload ext payloadSize w of
        None \<Rightarrow> None
      | Some (payload, w') \<Rightarrow>
          (let jsonData = Marshal ext payload;
               dummy = Unmarshal ext jsonData
           in Some w'))"

definition seed_data :: "byte list" where
  "seed_data = map (\<lambda>c. of_nat (of_char c)) ''benchmark-seed-data'' @ replicate 13 0"

text \<open>The loop of \<open>executeCPUWork\<close>: \<open>k\<close> iterations remain and \<open>i\<close> is the loop
  variable.\<close>

fun cpu_loop :: "externals \<Rightarrow> go_int \<Rightarrow> nat \<Rightarrow> nat \<Rightarrow> byte list \<Rightarrow> world
    \<Rightarrow> (byte list \<times> world) option" where
  "cpu_loop ext payloadSize 0 i data w = Some (data, w)"
| "cpu_loop ext payloadSize (Suc k) i data w =
     (let hash = Sum256 ext data
      in if 0 < sint payloadSize \<and> i mod 10 = 0
         then (case payload_overhead ext payloadSize w of
                 None \<Rightarrow> None
               | Some w' \<Rightarrow> cpu_loop ext payloadSize k (Suc i) hash w')
         else cpu_loop ext payloadSize k (Suc i) hash w)"

definition executeCPUWork :: "externals \<Rightarrow> go_int \<Rightarrow> go_int \<Rightarrow> world \<Rightarrow> (string \<times> world) option" where
  "executeCPUWork ext iterations payloadSize w =
     (case cpu_loop ext payloadSize (nat (sint iterations)) 0 seed_data w of
        None \<Rightarrow> None
      | Some (data, w') \<Rightarrow> Some (hex (take 8 data), w'))"

text \<open>The loop of \<open>executeIOWork\<close>.\<close>

fun io_loop :: "externals \<Rightarrow> Duration \<Rightarrow> go_int \<Rightarrow> nat \<Rightarrow> nat \<Rightarrow> world \<Rightarrow> world option" where
  "io_loop ext chunkDuration payloadSize 0 i w = Some w"
| "io_loop ext chunkDuration payloadSize (Suc k) i w =
     (let w1 = Sleep chunkDuration w
      in if 0 < sint payloadSize \<and> i mod 3 = 0
         then (case payload_overhead ext payloadSize w1 of
                 None \<Rightarrow> None
               | Some w2 \<Rightarrow> io_loop ext chunkDuration payloadSize k (Suc i) w2)
         else io_loop ext chunkDuration payloadSize k (Suc i) w1)"

definition Millisecond :: Duration where
  "Millisecond = 1000000"

definition executeIOWork :: "externals \<Rightarrow> go_int \<Rightarrow> go_int \<Rightarrow> world \<Rightarrow> (string \<times> world) option" where
  "executeIOWork ext sleepMs payloadSize w =
     (let chunks = (if sint sleepMs < 10 then 1 else 10);
          chunkDuration = go_div sleepMs chunks * Millisecond
      in case io_loop ext chunkDuration payloadSize (nat (sint chunks)) 0 w of
           None \<Rightarrow> None
         | Some w' \<Rightarrow> Some (''slept_'' @ decimal (sint sleepMs) @ ''ms'', w'))"

subsection \<open>Execute\<close>

text \<open>The errors of \<open>Execute\<close>, in the order of its checks: "request_id is required",
  "invalid mode: ...", "work_factor must be non-negative", "payload_size_bytes must be
  non-negative" and "unsupported mode: ...".\<close>

datatype exec_error =
    RequestIDRequired
  | InvalidMode Mode
  | NegativeWorkFactor
  | NegativePayloadSize
  | UnsupportedMode Mode

text \<open>The end of \<open>Execute\<close>, after the workload: the elapsed time and the response.\<close>

definition respond :: "externals \<Rightarrow> Request \<Rightarrow> string \<Rightarrow> int \<Rightarrow> string \<times> world \<Rightarrow> Response \<times> world" where
  "respond ext req protocol start rw =
     (case rw of (result, w2) \<Rightarrow>
        (let (finish, w3) = Now w2;
             elapsed = finish - start;
             (stamp, w4) = Now w3
         in (\<lparr>resp_RequestID = RequestID req,
              resp_Mode = Mode req,
              resp_WorkFactor = WorkFactor req,
              resp_PayloadSizeBytes = PayloadSizeBytes req,
              Result = result,
              ServerProcessingMs = real_of_int (elapsed sdiv 1000) / 1000,
              Protocol = protocol,
              Timestamp = RFC3339Nano ext stamp\<rparr>, w4)))"

text \<open>\<open>Execute\<close> returns an error or a response, with the world it leaves; \<open>None\<close> is
  a panic of the workload, after which it returns neither.\<close>

definition Execute :: "externals \<Rightarrow> Request \<Rightarrow> string \<Rightarrow> world
    \<Rightarrow> ((exec_error + Response) \<times> world) option" where
  "Execute ext req protocol w =
     (let (start, w1) = Now w
      in if RequestID req = [] then Some (Inl RequestIDRequired, w1)
         else if Mode req \<noteq> ModeCPU \<and> Mode req \<noteq> ModeIO
         then Some (Inl (InvalidMode (Mode req)), w1)
         else if sint (WorkFactor req) < 0 then Some (Inl NegativeWorkFactor, w1)
         else if sint (PayloadSizeBytes req) < 0 then Some (Inl NegativePayloadSize, w1)
         else
           (case (if Mode req = ModeCPU
                  then Some (executeCPUWork ext (WorkFactor req) (PayloadSizeBytes req) w1)
                  else if Mode req = ModeIO
                  then Some (executeIOWork ext (WorkFactor req) (PayloadSizeBytes req) w1)
                  else None) of
              None \<Rightarrow> Some (Inl (UnsupportedMode (Mode req)), w1)
            | Some None \<Rightarrow> None
            | Some (Some rw) \<Rightarrow>
                (case respond ext req protocol start rw of
                   (resp, w4) \<Rightarrow> Some (Inr resp, w4))))"

subsection \<open>A world and a library to run the executor in\<close>

text \<open>A clock that stands still, and stand-ins for the library functions with the
  allocation limit \<open>2^48\<close> of the 64-bit platforms; they serve to evaluate the executor
  on concrete requests.\<close>

definition still_world :: world where
  "still_world = \<lparr>clock = (\<lambda>k. 0), reads = 0, slept = []\<rparr>"

definition stub_externals :: externals where
  "stub_externals =
     \<lparr>Sum256 = (\<lambda>bs. bs), Marshal = (\<lambda>p. []), Unmarshal = (\<lambda>bs. None),
      RFC3339Nano = (\<lambda>t. []), alloc_limit = 281474976710656\<rparr>"

text \<open>The request of \<open>TestExecute_IOMode\<close> and the request with an invalid mode of
  \<open>TestExecute_Validation\<close>.\<close>

definition io_request :: Request where
  "io_request =
     \<lparr>RequestID = ''test-2'', Mode = ModeIO, WorkFactor = 50, PayloadSizeBytes = 1024\<rparr>"

definition invalid_mode_request :: Request where
  "invalid_mode_request =
     \<lparr>RequestID = ''test'', Mode = ''invalid'', WorkFactor = 10, PayloadSizeBytes = 0\<rparr>"

text \<open>A request that passes the four checks of \<open>Execute\<close> and asks for a payload of
  \<open>2^62\<close> bytes, and whether a payload of a size has its memory.\<close>

definition huge_payload_request :: Request where
  "huge_payload_request =
     \<lparr>RequestID = ''test'', Mode = ModeIO, WorkFactor = 15,
      PayloadSizeBytes = 4611686018427387904\<rparr>"

definition payload_fits :: "externals \<Rightarrow> go_int \<Rightarrow> bool" where
  "payload_fits ext payloadSize \<longleftrightarrow> nat (sint (data_size payloadSize)) \<le> alloc_limit ext"

section \<open>Package runner: workers and phases\<close>

record Config =
  cfg_Protocol :: string
  cfg_Mode :: string
  cfg_WorkFactor :: go_int
  cfg_PayloadSizeBytes :: go_int
  cfg_Concurrency :: go_int
  cfg_Duration :: Duration
  cfg_WarmupDuration :: Duration
  cfg_HTTPAddr :: string
  cfg_GRPCAddr :: string

subsection \<open>One request\<close>

text \<open>
  A phase context made by \<open>context.WithTimeout\<close> from the background context is done
  from its deadline on. Times are nanoseconds.
\<close>

record Context =
  deadline :: int

definition Done :: "Context \<Rightarrow> int \<Rightarrow> bool" where
  "Done ctx now \<longleftrightarrow> deadline ctx \<le> now"

text \<open>The JSON bodies of the two HTTP protocols and the message of the RPC protocol,
  before encoding.\<close>

record compute_params =
  param_request_id :: string
  param_mode :: string
  param_work_factor :: go_int
  param_payload_size_bytes :: go_int

datatype http_body =
    RestBody compute_params
  | JsonRpcBody string string compute_params string

record http_request =
  req_ctx :: Context
  req_method :: string
  req_url :: string
  req_body :: http_body
  req_content_type :: string

record ComputeRequest =
  pb_RequestId :: string
  pb_Mode :: string
  pb_WorkFactor :: "32 word"
  pb_PayloadSizeBytes :: "32 word"

text \<open>
  The transports are library code and are parameters. Each is called at a time with a
  request, which carries the context, and returns at some time with a status code or
  an error: \<open>http.Client.Do\<close> (with the reading of the body), the check of the URL by
  \<open>http.NewRequestWithContext\<close>, and the generated client's \<open>Compute\<close>. (Marshalling
  the body, a map of strings and integers, does not fail.)
\<close>

datatype http_result = TransportError string | StatusCode nat

record transports =
  http_Do :: "http_request \<Rightarrow> int \<Rightarrow> http_result \<times> int"
  url_error :: "string \<Rightarrow> string option"
  grpc_Compute :: "Context \<Rightarrow> ComputeRequest \<Rightarrow> int \<Rightarrow> string option \<times> int"

definition params_of :: "Config \<Rightarrow> string \<Rightarrow> compute_params" where
  "params_of cfg requestID =
     \<lparr>param_request_id = requestID, param_mode = cfg_Mode cfg,
      param_work_factor = cfg_WorkFactor cfg,
      param_payload_size_bytes = cfg_PayloadSizeBytes cfg\<rparr>"

text \<open>The common part of the two HTTP adapters: build the request with the context,
  send it, and fail on a status other than 200. The result is the error, if any, and
  the time of return.\<close>

definition post_json :: "transports \<Rightarrow> Context \<Rightarrow> string \<Rightarrow> http_body \<Rightarrow> int \<Rightarrow> string option \<times> int" where
  "post_json lib ctx url body now =
     (case url_error lib url of
        Some e \<Rightarrow> (Some e, now)
      | None \<Rightarrow>
          (let req = \<lparr>req_ctx = ctx, req_method = ''POST'', req_url = url, req_body = body,
                      req_content_type = ''application/json''\<rparr>
           in case http_Do lib req now of
                (TransportError e, fin) \<Rightarrow> (Some e, fin)
              | (StatusCode code, fin) \<Rightarrow>
                  (if code \<noteq> 200 then (Some (''unexpected status: '' @ decimal (int code)), fin)
                   else (None, fin))))"

definition sendRESTRequest :: "transports \<Rightarrow> Config \<Rightarrow> Context \<Rightarrow> string \<Rightarrow> int \<Rightarrow> string option \<times> int" where
  "sendRESTRequest lib cfg ctx requestID now =
     post_json lib ctx (cfg_HTTPAddr cfg @ ''/v1/compute'') (RestBody (params_of cfg requestID)) now"

definition sendJSONRPCRequest :: "transports \<Rightarrow> Config \<Rightarrow> Context \<Rightarrow> string \<Rightarrow> int \<Rightarrow> string option \<times> int" where
  "sendJSONRPCRequest lib cfg ctx requestID now =
     post_json lib ctx (cfg_HTTPAddr cfg @ ''/rpc'')
       (JsonRpcBody ''2.0'' ''compute'' (params_of cfg requestID) requestID) now"

definition sendGRPCRequest :: "transports \<Rightarrow> Config \<Rightarrow> Context \<Rightarrow> string \<Rightarrow> int \<Rightarrow> string option \<times> int" where
  "sendGRPCRequest lib cfg ctx requestID now =
     grpc_Compute lib ctx
       \<lparr>pb_RequestId = requestID, pb_Mode = cfg_Mode cfg,
        pb_WorkFactor = ucast (cfg_WorkFactor cfg),
        pb_PayloadSizeBytes = ucast (cfg_PayloadSizeBytes cfg)\<rparr> now"

definition sendRequest :: "transports \<Rightarrow> Config \<Rightarrow> Context \<Rightarrow> string \<Rightarrow> int \<Rightarrow> string option \<times> int" where
  "sendRequest lib cfg ctx requestID now =
     (if cfg_Protocol cfg = ''rest'' then sendRESTRequest lib cfg ctx requestID now
      else if cfg_Protocol cfg = ''jsonrpc'' then sendJSONRPCRequest lib cfg ctx requestID now
      else if cfg_Protocol cfg = ''grpc'' then sendGRPCRequest lib cfg ctx requestID now
      else (Some (''unknown protocol: '' @ cfg_Protocol cfg), now))"

subsection \<open>The worker\<close>

text \<open>The result a worker builds from the two clock readings around a request and
  its error.\<close>

definition mk_result :: "int \<Rightarrow> int \<Rightarrow> string option \<Rightarrow> RequestResult" where
  "mk_result start fin err =
     \<lparr>StartTime = start, EndTime = fin,
      LatencyMs = real_of_int ((fin - start) sdiv 1000) / 1000,
      Success = (err = None),
      Error = (case err of None \<Rightarrow> [] | Some e \<Rightarrow> e)\<rparr>"

text \<open>
  The loop of \<open>worker\<close> on the worker's own time line. \<open>now\<close> is the time of the check
  of \<open>ctx.Done()\<close>, at which the clock is read for \<open>start\<close>. The request returns at the
  time its transport says, and the clock, which does not run backwards, is read for
  \<open>end\<close>. The rest of the pass (the send of the result among it) takes time, at least
  a nanosecond: \<open>1 + pause k\<close> after the \<open>k\<close>-th request; then the next check follows.
  The loop has no bound of its own, so it runs on fuel; \<open>None\<close> is a run that has not
  returned within the fuel. It returns the results sent to the channel, the time of
  return and the number of requests issued.
\<close>

fun worker :: "nat \<Rightarrow> (nat \<Rightarrow> nat) \<Rightarrow> transports \<Rightarrow> Config \<Rightarrow> Context \<Rightarrow> nat \<Rightarrow> bool \<Rightarrow> int \<Rightarrow> nat
    \<Rightarrow> RequestResult list \<Rightarrow> (RequestResult list \<times> int \<times> nat) option" where
  "worker 0 pause lib cfg ctx workerID collect now requestID sent = None"
| "worker (Suc fuel) pause lib cfg ctx workerID collect now requestID sent =
     (if Done ctx now then Some (sent, now, requestID)
      else
        (let requestID' = Suc requestID;
             reqID = ''worker-'' @ decimal (int workerID) @ ''-req-'' @ decimal (int requestID');
             start = now;
             (err, returned) = sendRequest lib cfg ctx reqID start;
             fin = max start returned
         in worker fuel pause lib cfg ctx workerID
              collect (fin + 1 + int (pause requestID')) requestID'
              (if collect then sent @ [mk_result start fin err] else sent)))"







definition rest_config :: Config where
  "rest_config =
     \<lparr>cfg_Protocol = ''rest'', cfg_Mode = ''cpu'', cfg_WorkFactor = 100,
      cfg_PayloadSizeBytes = 256, cfg_Concurrency = 10, cfg_Duration = 30000000000,
      cfg_WarmupDuration = 5000000000, cfg_HTTPAddr = ''http://localhost:8080'',
      cfg_GRPCAddr = ''localhost:9090''\<rparr>"

subsection \<open>A phase as interleaved steps\<close>

text \<open>
  \<open>runPhase\<close> starts the workers and, when it collects, one more goroutine that drains
  the channel into the collector; it waits for the workers, closes the channel, waits
  for the drain and returns. The goroutines are modelled by their interleaved steps on
  a shared state. A worker is at its \<open>select\<close> with so many requests issued, has a
  request in flight, is at the send of a result, or has returned.
\<close>

datatype wstate = Polling nat | InFlight nat | Sending nat RequestResult | Exited

record phase =
  ph_workers :: "wstate list"
  ph_chan :: "RequestResult list"
  ph_cap :: nat
  ph_closed :: bool
  ph_expired :: bool
  ph_collector :: "Collector option"
  ph_drained :: bool
  ph_returned :: bool
  ph_panic :: bool

text \<open>
  The steps: the deadline fires; worker \<open>i\<close> passes its \<open>select\<close> (it returns when the
  context is done and issues the next request otherwise); the request of worker \<open>i\<close>
  returns, between two clock readings and with an error or none; worker \<open>i\<close> sends its
  result; the drain receives a result and adds it; the drain's loop ends on the closed
  and empty channel; the main goroutine, past \<open>wg.Wait()\<close>, closes the channel; the main
  goroutine, past \<open>collectorWg.Wait()\<close>, returns.
\<close>

datatype action =
    Expire
  | Poll nat
  | Finish nat int int "string option"
  | Send nat
  | Recv
  | DrainExit
  | Close
  | Return

text \<open>A step that cannot be taken in a state gives \<open>None\<close>. A send blocks while the
  buffer is full; on a channel without buffer it hands the result to the waiting
  drain; on a closed channel it panics.\<close>

fun fire :: "action \<Rightarrow> phase \<Rightarrow> phase option" where
  "fire Expire s = (if ph_expired s then None else Some (s\<lparr>ph_expired := True\<rparr>))"
| "fire (Poll i) s =
     (if i < length (ph_workers s) then
        (case ph_workers s ! i of
           Polling k \<Rightarrow>
             Some (s\<lparr>ph_workers := (ph_workers s)
                       [i := (if ph_expired s then Exited else InFlight (Suc k))]\<rparr>)
         | _ \<Rightarrow> None)
      else None)"
| "fire (Finish i start fin err) s =
     (if i < length (ph_workers s) then
        (case ph_workers s ! i of
           InFlight k \<Rightarrow>
             Some (s\<lparr>ph_workers := (ph_workers s)
                       [i := (if ph_collector s \<noteq> None
                              then Sending k (mk_result start fin err) else Polling k)]\<rparr>)
         | _ \<Rightarrow> None)
      else None)"
| "fire (Send i) s =
     (if i < length (ph_workers s) then
        (case ph_workers s ! i of
           Sending k r \<Rightarrow>
             (if ph_closed s then Some (s\<lparr>ph_panic := True\<rparr>)
              else if length (ph_chan s) < ph_cap s
              then Some (s\<lparr>ph_chan := ph_chan s @ [r],
                           ph_workers := (ph_workers s)[i := Polling k]\<rparr>)
              else if ph_cap s = 0 \<and> \<not> ph_drained s
              then (case ph_collector s of
                      None \<Rightarrow> None
                    | Some c \<Rightarrow>
                        Some (s\<lparr>ph_collector := Some (Add c r),
                                ph_workers := (ph_workers s)[i := Polling k]\<rparr>))
              else None)
         | _ \<Rightarrow> None)
      else None)"
| "fire Recv s =
     (case ph_collector s of
        None \<Rightarrow> None
      | Some c \<Rightarrow>
          (if ph_drained s then None
           else (case ph_chan s of
                   [] \<Rightarrow> None
                 | r # rest \<Rightarrow> Some (s\<lparr>ph_chan := rest, ph_collector := Some (Add c r)\<rparr>))))"
| "fire DrainExit s =
     (if ph_collector s \<noteq> None \<and> \<not> ph_drained s \<and> ph_closed s \<and> ph_chan s = []
      then Some (s\<lparr>ph_drained := True\<rparr>) else None)"
| "fire Close s =
     (if \<not> ph_closed s \<and> list_all (\<lambda>w. w = Exited) (ph_workers s)
      then Some (s\<lparr>ph_closed := True\<rparr>) else None)"
| "fire Return s =
     (if ph_closed s \<and> \<not> ph_returned s \<and> (ph_collector s = None \<or> ph_drained s)
      then Some (s\<lparr>ph_returned := True\<rparr>) else None)"

fun exec :: "action list \<Rightarrow> phase \<Rightarrow> phase option" where
  "exec [] s = Some s"
| "exec (a # as) s = (case fire a s of None \<Rightarrow> None | Some s' \<Rightarrow> exec as s')"

text \<open>The state in which \<open>runPhase\<close> starts its goroutines; making a channel of negative
  size panics.\<close>

definition init_phase :: "Config \<Rightarrow> Collector option \<Rightarrow> phase option" where
  "init_phase cfg collector =
     (if sint (cfg_Concurrency cfg * 10) < 0 then None
      else Some \<lparr>ph_workers = replicate (nat (sint (cfg_Concurrency cfg))) (Polling 0),
                 ph_chan = [], ph_cap = nat (sint (cfg_Concurrency cfg * 10)),
                 ph_closed = False, ph_expired = False, ph_collector = collector,
                 ph_drained = False, ph_returned = False, ph_panic = False\<rparr>)"

text \<open>\<open>runPhase\<close> under a schedule of steps: the state in which it returns, if the
  schedule is one of its runs up to the return.\<close>

definition runPhase :: "Config \<Rightarrow> Collector option \<Rightarrow> action list \<Rightarrow> phase option" where
  "runPhase cfg collector schedule =
     (case init_phase cfg collector of
        None \<Rightarrow> None
      | Some s0 \<Rightarrow>
          (case exec schedule s0 of
             None \<Rightarrow> None
           | Some s \<Rightarrow> if ph_returned s \<and> \<not> ph_panic s then Some s else None))"

text \<open>\<open>Run\<close>: the warmup phase without a collector, then the measurement phase with a
  new one, which is returned.\<close>

definition Run :: "Config \<Rightarrow> action list \<Rightarrow> action list \<Rightarrow> Collector option" where
  "Run cfg warmup measurement =
     (case runPhase cfg None warmup of
        None \<Rightarrow> None
      | Some s1 \<Rightarrow>
          (case runPhase cfg (Some NewCollector) measurement of
             None \<Rightarrow> None
           | Some s2 \<Rightarrow> ph_collector s2))"

text \<open>The results of the requests that return in a schedule, and the results held by
  workers at their send.\<close>

fun finished :: "action list \<Rightarrow> RequestResult list" where
  "finished [] = []"
| "finished (Finish i start fin err # as) = mk_result start fin err # finished as"
| "finished (a # as) = finished as"

fun pending :: "wstate list \<Rightarrow> RequestResult list" where
  "pending [] = []"
| "pending (Sending k r # ws) = r # pending ws"
| "pending (w # ws) = pending ws"

text \<open>All results that exist in a state: those added to the collector, those in the
  channel and those held by workers at their send.\<close>

definition bag :: "phase \<Rightarrow> RequestResult multiset" where
  "bag s = (case ph_collector s of None \<Rightarrow> {#} | Some c \<Rightarrow> mset (results c))
           + mset (ph_chan s) + mset (pending (ph_workers s))"

text \<open>What holds in every state of a phase: the channel is closed only after all
  workers have returned, the drain ends only on the closed and empty channel, the phase
  returns only after both, the buffer is never over its capacity, no send has panicked,
  and without a collector no result exists.\<close>

definition good :: "phase \<Rightarrow> bool" where
  "good s \<longleftrightarrow>
     (ph_closed s \<longrightarrow> list_all (\<lambda>w. w = Exited) (ph_workers s)) \<and>
     (ph_drained s \<longrightarrow> ph_closed s \<and> ph_chan s = []) \<and>
     (ph_returned s \<longrightarrow> ph_closed s \<and> (ph_collector s = None \<or> ph_drained s)) \<and>
     length (ph_chan s) \<le> ph_cap s \<and>
     \<not> ph_panic s \<and>
     (ph_collector s = None \<longrightarrow> ph_chan s = [] \<and> pending (ph_workers s) = [])"

definition two_workers :: Config where
  "two_workers = rest_config\<lparr>cfg_Concurrency := 2\<rparr>"

definition warmup_schedule :: "action list" where
  "warmup_schedule =
     [Poll 0, Poll 1, Finish 1 0 4000000 None, Finish 0 0 5000000 (Some ''refused''),
      Expire, Poll 0, Poll 1, Close, Return]"

definition measurement_schedule :: "action list" where
  "measurement_schedule =
     [Poll 0, Poll 1, Finish 1 0 2000000 None, Send 1, Poll 1,
      Finish 0 0 3000000 None, Recv, Send 0, Expire, Finish 1 2000000 6000000 (Some ''reset''),
      Poll 0, Send 1, Recv, Poll 1, Close, Recv, DrainExit, Return]"

text \<open>A run of two workers that fills the buffer of twenty results, each worker
  then holding one result more at its send; and the state it reaches.\<close>

definition full_buffer_schedule :: "action list" where
  "full_buffer_schedule =
     concat (replicate 10 [Poll 0, Poll 1, Finish 0 0 1000000 None, Finish 1 0 2000000 None,
                           Send 0, Send 1]) @
     [Poll 0, Poll 1, Finish 0 0 1000000 None, Finish 1 0 2000000 None]"

definition full_buffer :: phase where
  "full_buffer =
     \<lparr>ph_workers = [Sending 11 (mk_result 0 1000000 None), Sending 11 (mk_result 0 2000000 None)],
      ph_chan = concat (replicate 10 [mk_result 0 1000000 None, mk_result 0 2000000 None]),
      ph_cap = 20, ph_closed = False, ph_expired = False, ph_collector = Some NewCollector,
      ph_drained = False, ph_returned = False, ph_panic = False\<rparr>"

section \<open>Statistics of the collector\<close>

subsection \<open>Percentiles\<close>

lemma percentile_index_bounds:
  assumes "xs \<noteq> []" "0 \<le> p" "p \<le> 100"
  shows "0 \<le> (p / 100) * real (length xs - 1)"
    and "(p / 100) * real (length xs - 1) \<le> real (length xs - 1)"
proof -
  show "0 \<le> (p / 100) * real (length xs - 1)" using assms by simp
  have "p / 100 \<le> 1" using assms by simp
  then have "(p / 100) * real (length xs - 1) \<le> 1 * real (length xs - 1)"
    by (rule mult_right_mono) simp
  then show "(p / 100) * real (length xs - 1) \<le> real (length xs - 1)" by simp
qed

lemma percentile_in_range:
  assumes "xs \<noteq> []" "0 \<le> p" "p \<le> 100"
  shows "let i = (p / 100) * real (length xs - 1); lo = \<lfloor>i\<rfloor>; hi = \<lceil>i\<rceil>;
             frac = i - real_of_int lo
         in 0 \<le> lo \<and> lo \<le> hi \<and> hi < int (length xs) \<and>
            percentile xs p =
              Some (if lo = hi then xs ! nat lo
                    else xs ! nat lo * (1 - frac) + xs ! nat hi * frac)"
proof -
  define i where "i = (p / 100) * real (length xs - 1)"
  have i0: "0 \<le> i" and i1: "i \<le> real (length xs - 1)"
    using percentile_index_bounds[OF assms] by (simp_all add: i_def)
  have n: "0 < length xs" using assms(1) by simp
  have f0: "0 \<le> \<lfloor>i\<rfloor>" using i0 by simp
  have fc: "\<lfloor>i\<rfloor> \<le> \<lceil>i\<rceil>" by (rule floor_le_ceiling)
  have "\<lceil>i\<rceil> \<le> int (length xs - 1)" using i1 by (simp add: ceiling_le_iff)
  then have c1: "\<lceil>i\<rceil> < int (length xs)" using n by linarith
  have f1: "\<lfloor>i\<rfloor> < int (length xs)" using fc c1 by linarith
  have c0: "0 \<le> \<lceil>i\<rceil>" using f0 fc by linarith
  have ilo: "index xs \<lfloor>i\<rfloor> = Some (xs ! nat \<lfloor>i\<rfloor>)"
    using f0 f1 by (simp add: index_def)
  have ihi: "index xs \<lceil>i\<rceil> = Some (xs ! nat \<lceil>i\<rceil>)"
    using c0 c1 by (simp add: index_def)
  have "percentile xs p =
      Some (if \<lfloor>i\<rfloor> = \<lceil>i\<rceil> then xs ! nat \<lfloor>i\<rfloor>
            else xs ! nat \<lfloor>i\<rfloor> * (1 - (i - real_of_int \<lfloor>i\<rfloor>))
                 + xs ! nat \<lceil>i\<rceil> * (i - real_of_int \<lfloor>i\<rfloor>))"
    using assms(1) ilo ihi unfolding percentile_def i_def[symmetric]
    by (simp add: Let_def)
  then show ?thesis using f0 fc c1 unfolding i_def[symmetric] Let_def by simp
qed

lemma percentile_Some:
  assumes "xs \<noteq> []" "0 \<le> p" "p \<le> 100"
  shows "\<exists>v. percentile xs p = Some v"
  using percentile_in_range[OF assms] by (simp add: Let_def)

text \<open>
  Claim C1. On a non-empty list of \<open>n\<close> latencies and a percentile \<open>p\<close> between 0 and
  100, \<open>percentile\<close> does not panic: with \<open>i = (p/100) * (n-1)\<close>, \<open>lo = floor i\<close> and
  \<open>hi = ceil i\<close> are indices of the list, and the result is \<open>sorted[lo]\<close> when
  \<open>lo = hi\<close> and \<open>sorted[lo] * (1 - frac) + sorted[hi] * frac\<close> with \<open>frac = i - lo\<close>
  otherwise. On the list 1, 2, ..., 10 it returns 5.5 at \<open>p = 50\<close>, 9.1 at \<open>p = 90\<close>
  and 9.91 at \<open>p = 99\<close>. (The formula does not need the list to be sorted; the values
  are exact in real arithmetic.)
\<close>

theorem percentile_interpolation:
  assumes "xs \<noteq> []" and "0 \<le> p" and "p \<le> 100"
  shows "(let i = (p / 100) * real (length xs - 1); lo = \<lfloor>i\<rfloor>; hi = \<lceil>i\<rceil>;
              frac = i - real_of_int lo
          in 0 \<le> lo \<and> hi < int (length xs) \<and>
             percentile xs p =
               Some (if lo = hi then xs ! nat lo
                     else xs ! nat lo * (1 - frac) + xs ! nat hi * frac))
         \<and> percentile (map real [1..<11]) 50 = Some 5.5
         \<and> percentile (map real [1..<11]) 90 = Some 9.1
         \<and> percentile (map real [1..<11]) 99 = Some 9.91"
proof -
  have p50: "percentile (map real [1..<11]) 50 = Some 5.5"
    by (simp add: percentile_def index_def Let_def upt_rec)
  have p90: "percentile (map real [1..<11]) 90 = Some 9.1"
    by (simp add: percentile_def index_def Let_def upt_rec)
  have p99: "percentile (map real [1..<11]) 99 = Some 9.91"
    by (simp add: percentile_def index_def Let_def upt_rec)
  show ?thesis
    using percentile_in_range[OF assms] p50 p90 p99 by (simp add: Let_def)
qed

theorem percentile_interpolation_witness:
  "[10, 20, 40 :: real] \<noteq> [] \<and> (0::real) \<le> 75 \<and> (75::real) \<le> 100 \<and>
   percentile [10, 20, 40] 75 = Some 30"
  using percentile_interpolation[of "[10, 20, 40]" 75] by (simp add: Let_def)

subsection \<open>The aggregation loop\<close>

lemma separate_filter:
  "separate rs (lat, sc, fc) =
     (lat @ map LatencyMs (filter Success rs),
      sc + length (filter Success rs),
      fc + length (filter (\<lambda>r. \<not> Success r) rs))"
  by (induction rs arbitrary: lat sc fc) simp_all

lemma foldl_plus_sum_list: "foldl (+) (a::real) xs = a + sum_list xs"
  by (induction xs arbitrary: a) simp_all

lemma mean_sum_list: "xs \<noteq> [] \<Longrightarrow> mean xs = sum_list xs / real (length xs)"
  by (simp add: mean_def foldl_plus_sum_list)

lemma fdiv_nonzero: "y \<noteq> 0 \<Longrightarrow> fdiv x y = Finite (x / y)"
  by (simp add: fdiv_def)

lemma results_foldl_Add: "results (foldl Add c rs) = results c @ rs"
  by (induction rs arbitrary: c) (simp_all add: Add_def)

lemma Aggregate_no_success:
  assumes "results c \<noteq> []" "filter Success (results c) = []"
  shows "Aggregate c d = Some (zero_stats
              \<lparr>TotalRequests := length (results c),
               SuccessfulRequests := 0,
               FailedRequests := length (filter (\<lambda>r. \<not> Success r) (results c)),
               RPS := fdiv 0 (Seconds d),
               ErrorRate := fdiv (real (length (filter (\<lambda>r. \<not> Success r) (results c))))
                                 (real (length (results c)))\<rparr>)"
  using assms by (simp add: Aggregate_def separate_filter)

lemma Aggregate_success:
  assumes "filter Success (results c) \<noteq> []"
  defines "srt \<equiv> sort (map LatencyMs (filter Success (results c)))"
  shows "\<exists>p50 p90 p95 p99.
          percentile srt 50 = Some p50 \<and> percentile srt 90 = Some p90 \<and>
          percentile srt 95 = Some p95 \<and> percentile srt 99 = Some p99 \<and>
          Aggregate c d = Some
            \<lparr>TotalRequests = length (results c),
             SuccessfulRequests = length (filter Success (results c)),
             FailedRequests = length (filter (\<lambda>r. \<not> Success r) (results c)),
             RPS = fdiv (real (length (filter Success (results c)))) (Seconds d),
             P50 = Finite p50, P90 = Finite p90, P95 = Finite p95, P99 = Finite p99,
             Mean = Finite (sum_list srt / real (length srt)),
             Min = Finite (srt ! 0), Max = Finite (srt ! (length srt - 1)),
             ErrorRate = Finite (real (length (filter (\<lambda>r. \<not> Success r) (results c)))
                                 / real (length (results c)))\<rparr>"
proof -
  have "length srt = length (filter Success (results c))" by (simp add: srt_def)
  then have ne: "srt \<noteq> []" using assms(1) by auto
  have rne: "results c \<noteq> []" using assms(1) by auto
  obtain p50 where p50: "percentile srt 50 = Some p50"
    using percentile_Some[OF ne, of 50] by auto
  obtain p90 where p90: "percentile srt 90 = Some p90"
    using percentile_Some[OF ne, of 90] by auto
  obtain p95 where p95: "percentile srt 95 = Some p95"
    using percentile_Some[OF ne, of 95] by auto
  obtain p99 where p99: "percentile srt 99 = Some p99"
    using percentile_Some[OF ne, of 99] by auto
  have i0: "index srt 0 = Some (srt ! 0)" using ne by (simp add: index_def)
  have il: "index srt (int (length srt) - 1) = Some (srt ! (length srt - 1))"
    using ne by (simp add: index_def nat_diff_distrib')
  have len: "length srt \<noteq> 0" using ne by simp
  have "Aggregate c d = Some
            \<lparr>TotalRequests = length (results c),
             SuccessfulRequests = length (filter Success (results c)),
             FailedRequests = length (filter (\<lambda>r. \<not> Success r) (results c)),
             RPS = fdiv (real (length (filter Success (results c)))) (Seconds d),
             P50 = Finite p50, P90 = Finite p90, P95 = Finite p95, P99 = Finite p99,
             Mean = Finite (sum_list srt / real (length srt)),
             Min = Finite (srt ! 0), Max = Finite (srt ! (length srt - 1)),
             ErrorRate = Finite (real (length (filter (\<lambda>r. \<not> Success r) (results c)))
                                 / real (length (results c)))\<rparr>"
    using rne assms(1) p50 p90 p95 p99 i0 il len mean_sum_list[OF ne]
    unfolding Aggregate_def separate_filter srt_def[symmetric]
    by (simp add: srt_def[symmetric] zero_stats_def fdiv_nonzero)
  then show ?thesis using p50 p90 p95 p99 by blast
qed

text \<open>
  Claim C2. Whatever the duration, \<open>Aggregate\<close> on a collector that holds no result
  returns the statistics with every field zero: the counts, RPS, the four percentiles,
  mean, min and max, and the error rate, which is the number 0 and not NaN. The early
  return comes before both divisions, so neither is performed.
\<close>

theorem Aggregate_empty:
  assumes "results c = []"
  shows "Aggregate c d = Some
     \<lparr>TotalRequests = 0, SuccessfulRequests = 0, FailedRequests = 0, RPS = Finite 0,
      P50 = Finite 0, P90 = Finite 0, P95 = Finite 0, P99 = Finite 0,
      Mean = Finite 0, Min = Finite 0, Max = Finite 0, ErrorRate = Finite 0\<rparr>"
  using assms by (simp add: Aggregate_def zero_stats_def)

theorem Aggregate_empty_witness:
  "results NewCollector = [] \<and> Aggregate NewCollector 0 = Some
     \<lparr>TotalRequests = 0, SuccessfulRequests = 0, FailedRequests = 0, RPS = Finite 0,
      P50 = Finite 0, P90 = Finite 0, P95 = Finite 0, P99 = Finite 0,
      Mean = Finite 0, Min = Finite 0, Max = Finite 0, ErrorRate = Finite 0\<rparr>"
  using Aggregate_empty[of NewCollector 0] by (simp add: NewCollector_def)

text \<open>
  Claim C3. On a non-empty collector whose results are all failures, \<open>Aggregate\<close>
  returns total and failed counts equal to the number of results, successful count 0,
  error rate exactly 1, and p50, p90, p95, p99, mean, min and max all equal to the
  number 0 (so neither NaN nor negative).
\<close>

theorem Aggregate_only_failures:
  assumes "results c \<noteq> []" and "\<forall>r \<in> set (results c). \<not> Success r"
  shows "Aggregate c d = Some
     \<lparr>TotalRequests = length (results c), SuccessfulRequests = 0,
      FailedRequests = length (results c), RPS = fdiv 0 (Seconds d),
      P50 = Finite 0, P90 = Finite 0, P95 = Finite 0, P99 = Finite 0,
      Mean = Finite 0, Min = Finite 0, Max = Finite 0, ErrorRate = Finite 1\<rparr>"
proof -
  have none: "filter Success (results c) = []"
    using assms(2) by (simp add: filter_empty_conv)
  have all: "filter (\<lambda>r. \<not> Success r) (results c) = results c"
    using assms(2) by simp
  have "fdiv (real (length (results c))) (real (length (results c))) = Finite 1"
    using assms(1) by (simp add: fdiv_def)
  then show ?thesis
    using Aggregate_no_success[OF assms(1) none, of d] all by (simp add: zero_stats_def)
qed

theorem Aggregate_only_failures_witness:
  "results only_failures_collector \<noteq> [] \<and>
   map Success (results only_failures_collector) = replicate 5 False \<and>
   Aggregate only_failures_collector 1000000000 = Some
     \<lparr>TotalRequests = 5, SuccessfulRequests = 0,
      FailedRequests = 5, RPS = Finite 0,
      P50 = Finite 0, P90 = Finite 0, P95 = Finite 0, P99 = Finite 0,
      Mean = Finite 0, Min = Finite 0, Max = Finite 0, ErrorRate = Finite 1\<rparr>"
  using Aggregate_only_failures[of only_failures_collector 1000000000]
  by (simp add: only_failures_collector_def results_foldl_Add NewCollector_def
      only_failure_def fdiv_def Seconds_def)

subsection \<open>Counts and rates\<close>

lemma results_test_collector:
  "results (test_collector ticks) =
     map (ok_result ticks) [0..<100] @ map (failed_result ticks) [0..<10]"
  by (simp add: test_collector_def results_foldl_Add NewCollector_def)

lemma test_collector_latencies:
  "mset (map LatencyMs (filter Success (results (test_collector ticks)))) =
   mset (map real [1..<101])"
proof -
  have "map LatencyMs (filter Success (results (test_collector ticks))) =
        map (\<lambda>i. real (i + 1)) [0..<100]"
    by (simp add: results_test_collector filter_map o_def ok_result_def failed_result_def)
  also have "\<dots> = map real (map Suc [0..<100])" by (simp add: o_def)
  also have "map Suc [0..<100] = [1..<101]" by (simp add: map_Suc_upt)
  finally show ?thesis by simp
qed

lemma test_collector_failures:
  "length (filter (\<lambda>r. \<not> Success r) (results (test_collector ticks))) = 10"
  by (simp add: results_test_collector filter_map o_def ok_result_def failed_result_def)

lemma Seconds_10: "Seconds 10000000000 = 10"
  by (simp add: Seconds_def)

lemma sum_list_upt_real: "sum_list (map real [1..<Suc n]) = real (n * (n + 1)) / 2"
  by (induction n) (simp_all add: field_simps)

lemma Aggregate_nonempty_rates:
  assumes "results c \<noteq> []"
  shows "\<exists>s. Aggregate c d = Some s \<and>
             TotalRequests s = length (results c) \<and>
             SuccessfulRequests s = length (filter Success (results c)) \<and>
             FailedRequests s = length (filter (\<lambda>r. \<not> Success r) (results c)) \<and>
             RPS s = fdiv (real (SuccessfulRequests s)) (Seconds d) \<and>
             ErrorRate s = Finite (real (FailedRequests s) / real (TotalRequests s))"
proof (cases "filter Success (results c) = []")
  case True
  show ?thesis
    using Aggregate_no_success[OF assms True, of d] assms True
    by (simp add: zero_stats_def fdiv_nonzero)
next
  case False
  from Aggregate_success[OF False, of d] show ?thesis by auto
qed

lemma Aggregate_hundred:
  assumes lat: "mset (map LatencyMs (filter Success (results c))) = mset (map real [1..<101])"
      and bad: "length (filter (\<lambda>r. \<not> Success r) (results c)) = 10"
  shows "\<exists>s. Aggregate c 10000000000 = Some s \<and>
             TotalRequests s = 110 \<and> SuccessfulRequests s = 100 \<and> FailedRequests s = 10 \<and>
             RPS s = Finite 10 \<and> Min s = Finite 1 \<and> Max s = Finite 100 \<and>
             Mean s = Finite 50.5 \<and> ErrorRate s = Finite (10 / 110)"
proof -
  have srt: "sort (map LatencyMs (filter Success (results c))) = map real [1..<101]"
    using lat by (intro properties_for_sort) (simp_all add: sorted_map)
  have "length (map LatencyMs (filter Success (results c))) = length (map real [1..<101])"
    using lat by (rule mset_eq_length)
  then have good: "length (filter Success (results c)) = 100" by simp
  have "length (results c) =
        length (filter Success (results c)) + length (filter (\<lambda>r. \<not> Success r) (results c))"
    by (rule sum_length_filter_compl[symmetric])
  then have total: "length (results c) = 110" using good bad by simp
  have ne: "filter Success (results c) \<noteq> []" using good by auto
  have sum: "sum_list (map real [1..<101]) = 5050"
    using sum_list_upt_real[of 100] by simp
  have mn: "map real [1..<101] ! 0 = 1" by simp
  have mx: "map real [1..<101] ! 99 = 100" by simp
  have rps: "fdiv 100 (Seconds 10000000000) = Finite 10"
    by (simp add: Seconds_10 fdiv_def)
  from Aggregate_success[OF ne, of 10000000000] show ?thesis
    unfolding srt good bad total using sum mn mx rps by auto
qed

text \<open>
  Claim C4. In general, on a collector that holds at least one result, \<open>Aggregate\<close>
  returns the number of results as total, the numbers of successful and of failed
  results, RPS as the successful count divided by the duration in seconds (a float
  division: an infinity or NaN for a zero duration) and the error rate as failed
  divided by total. In particular a collector fed 100 successes with latencies
  1, ..., 100 ms and 10 failures, in any order and with any time stamps, aggregated
  over 10 seconds gives total 110, successful 100, failed 10, RPS 10, min 1, max 100,
  mean 50.5 and error rate 10/110. (The collector without results is claim C2.)
\<close>

theorem Aggregate_counts_and_rates:
  fixes c c' :: Collector
  shows "(results c \<noteq> [] \<longrightarrow>
            (\<exists>s. Aggregate c d = Some s \<and>
                 TotalRequests s = length (results c) \<and>
                 SuccessfulRequests s = length (filter Success (results c)) \<and>
                 FailedRequests s = length (filter (\<lambda>r. \<not> Success r) (results c)) \<and>
                 RPS s = fdiv (real (SuccessfulRequests s)) (Seconds d) \<and>
                 ErrorRate s = Finite (real (FailedRequests s) / real (TotalRequests s))))
       \<and> (mset (map LatencyMs (filter Success (results c'))) = mset (map real [1..<101]) \<and>
            length (filter (\<lambda>r. \<not> Success r) (results c')) = 10 \<longrightarrow>
            (\<exists>s. Aggregate c' 10000000000 = Some s \<and>
                 TotalRequests s = 110 \<and> SuccessfulRequests s = 100 \<and>
                 FailedRequests s = 10 \<and> RPS s = Finite 10 \<and> Min s = Finite 1 \<and>
                 Max s = Finite 100 \<and> Mean s = Finite 50.5 \<and>
                 ErrorRate s = Finite (10 / 110)))"
  using Aggregate_nonempty_rates[of c d] Aggregate_hundred[of c'] by blast

theorem Aggregate_counts_and_rates_witness:
  "results (test_collector (\<lambda>k. 0)) \<noteq> [] \<and>
   mset (map LatencyMs (filter Success (results (test_collector (\<lambda>k. 0))))) =
     mset (map real [1..<101]) \<and>
   length (filter (\<lambda>r. \<not> Success r) (results (test_collector (\<lambda>k. 0)))) = 10 \<and>
   (\<exists>s. Aggregate (test_collector (\<lambda>k. 0)) 10000000000 = Some s \<and>
        TotalRequests s = 110 \<and> SuccessfulRequests s = 100 \<and>
        FailedRequests s = 10 \<and> RPS s = Finite 10 \<and> Min s = Finite 1 \<and>
        Max s = Finite 100 \<and> Mean s = Finite 50.5 \<and>
        ErrorRate s = Finite (10 / 110) \<and>
        RPS s = fdiv (real (SuccessfulRequests s)) (Seconds 10000000000) \<and>
        ErrorRate s = Finite (real (FailedRequests s) / real (TotalRequests s)))"
proof -
  have ne: "results (test_collector (\<lambda>k. 0)) \<noteq> []"
    by (simp add: results_test_collector)
  note lat = test_collector_latencies[of "\<lambda>k. 0"]
  note bad = test_collector_failures[of "\<lambda>k. 0"]
  from Aggregate_counts_and_rates[of "test_collector (\<lambda>k. 0)" 10000000000
      "test_collector (\<lambda>k. 0)"] ne lat bad
  obtain s s' where
    s: "Aggregate (test_collector (\<lambda>k. 0)) 10000000000 = Some s"
       "RPS s = fdiv (real (SuccessfulRequests s)) (Seconds 10000000000)"
       "ErrorRate s = Finite (real (FailedRequests s) / real (TotalRequests s))"
    and s': "Aggregate (test_collector (\<lambda>k. 0)) 10000000000 = Some s'"
       "TotalRequests s' = 110" "SuccessfulRequests s' = 100"
       "FailedRequests s' = 10" "RPS s' = Finite 10" "Min s' = Finite 1"
       "Max s' = Finite 100" "Mean s' = Finite 50.5" "ErrorRate s' = Finite (10 / 110)"
    by blast
  from s(1) s'(1) have "s = s'" by simp
  with s s' ne lat bad show ?thesis by blast
qed

section \<open>The workload executor\<close>

subsection \<open>The cpu workload\<close>

lemma payload_overhead_eq:
  "payload_overhead ext p w = (if payload_fits ext p then Some (snd (Now w)) else None)"
  by (simp add: payload_overhead_def generatePayload_def payload_fits_def Let_def split_beta)

lemma cpu_loop_plain:
  "\<not> (0 < sint p \<and> i mod 10 = 0) \<Longrightarrow>
   cpu_loop ext p (Suc k) i data w = cpu_loop ext p k (Suc i) (Sum256 ext data) w"
  by (auto simp: Let_def)

lemma cpu_loop_payload:
  "0 < sint p \<Longrightarrow> i mod 10 = 0 \<Longrightarrow>
   cpu_loop ext p (Suc k) i data w =
     (if payload_fits ext p then cpu_loop ext p k (Suc i) (Sum256 ext data) (snd (Now w))
      else None)"
  by (simp add: Let_def payload_overhead_eq)

lemma cpu_loop_world:
  "map_option fst (cpu_loop ext p k i data w) = map_option fst (cpu_loop ext p k i data w')"
proof (induction k arbitrary: i data w w')
  case 0
  show ?case by simp
next
  case (Suc k)
  show ?case
  proof (cases "0 < sint p \<and> i mod 10 = 0")
    case True
    then have a: "0 < sint p" "i mod 10 = 0" by simp_all
    show ?thesis
      unfolding cpu_loop_payload[OF a]
      using Suc.IH[of "Suc i" "Sum256 ext data" "snd (Now w)" "snd (Now w')"] by simp
  next
    case False
    show ?thesis
      unfolding cpu_loop_plain[OF False]
      using Suc.IH[of "Suc i" "Sum256 ext data" w w'] by simp
  qed
qed

lemma cpu_loop_data:
  assumes "sint p \<le> 0 \<or> payload_fits ext p"
  shows "map_option fst (cpu_loop ext p k i data w) = Some ((Sum256 ext ^^ k) data)"
proof (induction k arbitrary: i data w)
  case 0
  show ?case by simp
next
  case (Suc k)
  show ?case
  proof (cases "0 < sint p \<and> i mod 10 = 0")
    case True
    then have a: "0 < sint p" "i mod 10 = 0" by simp_all
    from a(1) assms have f: "payload_fits ext p" by simp
    show ?thesis
      unfolding cpu_loop_payload[OF a]
      using Suc.IH[of "Suc i" "Sum256 ext data" "snd (Now w)"] f by (simp add: funpow_swap1)
  next
    case False
    show ?thesis
      unfolding cpu_loop_plain[OF False]
      using Suc.IH[of "Suc i" "Sum256 ext data" w] by (simp add: funpow_swap1)
  qed
qed

lemma executeCPUWork_fst:
  "map_option fst (executeCPUWork ext n p w) =
   map_option (\<lambda>data. hex (take 8 data))
     (map_option fst (cpu_loop ext p (nat (sint n)) 0 seed_data w))"
  by (cases "cpu_loop ext p (nat (sint n)) 0 seed_data w") (auto simp: executeCPUWork_def)

lemma executeCPUWork_result:
  assumes "sint p \<le> 0 \<or> payload_fits ext p"
  shows "map_option fst (executeCPUWork ext n p w) =
         Some (hex (take 8 ((Sum256 ext ^^ nat (sint n)) seed_data)))"
  by (simp add: executeCPUWork_fst cpu_loop_data[OF assms])

text \<open>
  Claim C9. The cpu workload is deterministic: for every work factor and payload size,
  two invocations of \<open>executeCPUWork\<close> return the same result string whatever the
  state of the world (the clock and how often it has been read) they start in, or both
  panic. The time that \<open>generatePayload\<close> reads goes into a payload that is dropped;
  the result is the hash chain from the seed alone.
\<close>

theorem executeCPUWork_deterministic:
  "map_option fst (executeCPUWork ext n p w) = map_option fst (executeCPUWork ext n p w')"
  using cpu_loop_world[of ext p "nat (sint n)" 0 seed_data w w']
  by (simp add: executeCPUWork_fst)


subsection \<open>The io workload\<close>

lemma io_loop_plain:
  "\<not> (0 < sint p \<and> i mod 3 = 0) \<Longrightarrow>
   io_loop ext d p (Suc k) i w = io_loop ext d p k (Suc i) (Sleep d w)"
  by (auto simp: Let_def)

lemma io_loop_payload:
  "0 < sint p \<Longrightarrow> i mod 3 = 0 \<Longrightarrow>
   io_loop ext d p (Suc k) i w =
     (if payload_fits ext p then io_loop ext d p k (Suc i) (snd (Now (Sleep d w)))
      else None)"
  by (simp add: Let_def payload_overhead_eq)

lemma io_loop_slept:
  assumes "sint p \<le> 0 \<or> payload_fits ext p"
  shows "\<exists>w'. io_loop ext d p k i w = Some w' \<and> slept w' = slept w @ replicate k d"
proof (induction k arbitrary: i w)
  case 0
  show ?case by simp
next
  case (Suc k)
  show ?case
  proof (cases "0 < sint p \<and> i mod 3 = 0")
    case True
    then have a: "0 < sint p" "i mod 3 = 0" by simp_all
    from a(1) assms have f: "payload_fits ext p" by simp
    have "slept (snd (Now (Sleep d w))) = slept w @ [d]" by (simp add: Now_def Sleep_def)
    with Suc.IH[of "Suc i" "snd (Now (Sleep d w))"] f
    show ?thesis
      unfolding io_loop_payload[OF a] by (simp add: replicate_app_Cons_same)
  next
    case False
    have "slept (Sleep d w) = slept w @ [d]" by (simp add: Sleep_def)
    with Suc.IH[of "Suc i" "Sleep d w"]
    show ?thesis
      unfolding io_loop_plain[OF False] by (simp add: replicate_app_Cons_same)
  qed
qed

lemma io_loop_panics:
  assumes "0 < sint p" "\<not> payload_fits ext p"
  shows "io_loop ext d p (Suc k) 0 w = None"
  using io_loop_payload[OF assms(1), of 0 ext d k w] assms(2) by simp

lemma executeIOWork_unfold:
  "executeIOWork ext s p w =
     (case (if sint s < 10 then io_loop ext (go_div s 1 * Millisecond) p (Suc 0) 0 w
            else io_loop ext (go_div s 10 * Millisecond) p (Suc 9) 0 w) of
        None \<Rightarrow> None
      | Some w' \<Rightarrow> Some (''slept_'' @ decimal (sint s) @ ''ms'', w'))"
  by (cases "sint s < 10") (simp_all add: executeIOWork_def Let_def)

lemma executeIOWork_returns:
  assumes "sint p \<le> 0 \<or> payload_fits ext p"
  shows "\<exists>w'. executeIOWork ext s p w = Some (''slept_'' @ decimal (sint s) @ ''ms'', w') \<and>
              slept w' = slept w @ (if sint s < 10 then [go_div s 1 * Millisecond]
                                    else replicate 10 (go_div s 10 * Millisecond))"
proof (cases "sint s < 10")
  case True
  from io_loop_slept[OF assms, of "go_div s 1 * Millisecond" "Suc 0" 0 w]
  obtain w' where "io_loop ext (go_div s 1 * Millisecond) p (Suc 0) 0 w = Some w'"
    "slept w' = slept w @ [go_div s 1 * Millisecond]" by auto
  with True show ?thesis unfolding executeIOWork_unfold by simp
next
  case False
  from io_loop_slept[OF assms, of "go_div s 10 * Millisecond" "Suc 9" 0 w]
  obtain w' where "io_loop ext (go_div s 10 * Millisecond) p (Suc 9) 0 w = Some w'"
    "slept w' = slept w @ replicate (Suc 9) (go_div s 10 * Millisecond)" by auto
  moreover have "Suc 9 = 10" by simp
  ultimately show ?thesis using False unfolding executeIOWork_unfold by simp
qed

lemma executeIOWork_panics:
  assumes "0 < sint p" "\<not> payload_fits ext p"
  shows "executeIOWork ext s p w = None"
  by (cases "sint s < 10")
     (simp_all only: executeIOWork_unfold io_loop_panics[OF assms] if_True if_False
        option.case)

lemma sint_chunk:
  assumes "- 9223372036854 \<le> k" "k \<le> 9223372036854"
  shows "sint (word_of_int k * Millisecond :: 64 word) = k * 1000000"
proof -
  have "word_of_int k * Millisecond = (word_of_int (k * 1000000) :: 64 word)"
    by (simp add: Millisecond_def)
  moreover have "sint (word_of_int (k * 1000000) :: 64 word) =
      signed_take_bit (LENGTH(64) - 1) (k * 1000000)"
    by (rule sint_sbintrunc')
  moreover have "signed_take_bit (LENGTH(64) - 1) (k * 1000000) = k * 1000000"
    using assms by (intro signed_take_bit_int_eq_self) simp_all
  ultimately show ?thesis by simp
qed

lemma sdiv_nonneg: "0 \<le> (a::int) \<Longrightarrow> 0 < b \<Longrightarrow> a sdiv b = a div b"
  by (simp add: signed_divide_int_def sgn_if)

lemma go_div_1: "go_div s 1 = s"
  by (simp add: go_div_def)

lemma go_div_10: "0 \<le> sint s \<Longrightarrow> go_div s 10 = word_of_int (sint s div 10)"
  by (simp add: go_div_def sdiv_nonneg)

text \<open>
  The io workload within its bounds. \<open>executeIOWork\<close> returns
  the string \<open>slept_{w}ms\<close> for the requested \<open>w\<close> whenever the payload has its memory.
  For \<open>w \<ge> 10\<close> whose tenth \<open>floor(w/10)\<close> is at most 9223372036854 (so that this many
  milliseconds fit the \<open>int64\<close> nanoseconds of a \<open>time.Duration\<close>) it sleeps 10 chunks
  of \<open>floor(w/10)\<close> milliseconds each, in total \<open>10 * floor(w/10)\<close> milliseconds, which
  is at most \<open>w\<close> and less than \<open>w\<close> when 10 does not divide \<open>w\<close>. For \<open>w < 10\<close> (and at
  least -9223372036854) it sleeps a single chunk of exactly \<open>w\<close> milliseconds.
\<close>

lemma executeIOWork_within_bounds:
  assumes fits: "sint p \<le> 0 \<or> payload_fits ext p"
  shows "\<exists>w'. executeIOWork ext s p w = Some (''slept_'' @ decimal (sint s) @ ''ms'', w') \<and>
   (10 \<le> sint s \<and> sint s div 10 \<le> 9223372036854 \<longrightarrow>
      (\<exists>d. slept w' = slept w @ replicate 10 d \<and>
           sint d = (sint s div 10) * 1000000 \<and>
           sum_list (map sint (replicate 10 d)) = 10 * (sint s div 10) * 1000000 \<and>
           10 * (sint s div 10) \<le> sint s \<and>
           (\<not> 10 dvd sint s \<longrightarrow> 10 * (sint s div 10) < sint s))) \<and>
   (sint s < 10 \<and> - 9223372036854 \<le> sint s \<longrightarrow>
      (\<exists>d. slept w' = slept w @ [d] \<and> sint d = sint s * 1000000))"
proof -
  from executeIOWork_returns[OF fits, of s w] obtain w' where
    r: "executeIOWork ext s p w = Some (''slept_'' @ decimal (sint s) @ ''ms'', w')"
    and sl: "slept w' = slept w @ (if sint s < 10 then [go_div s 1 * Millisecond]
                                    else replicate 10 (go_div s 10 * Millisecond))"
    by blast
  have big: "\<exists>d. slept w' = slept w @ replicate 10 d \<and>
           sint d = (sint s div 10) * 1000000 \<and>
           sum_list (map sint (replicate 10 d)) = 10 * (sint s div 10) * 1000000 \<and>
           10 * (sint s div 10) \<le> sint s \<and>
           (\<not> 10 dvd sint s \<longrightarrow> 10 * (sint s div 10) < sint s)"
    if a: "10 \<le> sint s \<and> sint s div 10 \<le> 9223372036854"
  proof -
    define d where "d = go_div s 10 * Millisecond"
    have nn: "0 \<le> sint s" using a by simp
    have "d = word_of_int (sint s div 10) * Millisecond"
      by (simp add: d_def go_div_10[OF nn])
    moreover have "- 9223372036854 \<le> sint s div 10" using nn by simp
    ultimately have sd: "sint d = (sint s div 10) * 1000000"
      using a sint_chunk[of "sint s div 10"] by simp
    have s1: "slept w' = slept w @ replicate 10 d" using a sl by (simp add: d_def)
    have tot: "sum_list (map sint (replicate 10 d)) = 10 * (sint s div 10) * 1000000"
      by (simp add: sd sum_list_replicate)
    have le: "10 * (sint s div 10) \<le> sint s" by simp
    have lt: "\<not> 10 dvd sint s \<longrightarrow> 10 * (sint s div 10) < sint s" by presburger
    show ?thesis using sd s1 tot le lt by blast
  qed
  have small: "\<exists>d. slept w' = slept w @ [d] \<and> sint d = sint s * 1000000"
    if a: "sint s < 10 \<and> - 9223372036854 \<le> sint s"
  proof -
    have "sint (word_of_int (sint s) * Millisecond :: 64 word) = sint s * 1000000"
      using a by (intro sint_chunk) simp_all
    then have "sint (go_div s 1 * Millisecond) = sint s * 1000000"
      by (simp add: go_div_1)
    moreover have "slept w' = slept w @ [go_div s 1 * Millisecond]" using a sl by simp
    ultimately show ?thesis by blast
  qed
  from r big small show ?thesis by blast
qed

text \<open>
  Claim C10, where the code breaks it. At \<open>w = 100000000000000\<close> and no payload the
  product of \<open>floor(w/10)\<close> and \<open>time.Millisecond\<close> wraps around: each of the ten chunks
  is the negative duration -8446744073709551616 ns, so that nothing is slept, while
  the string reports the requested value. At \<open>w = 15\<close> and a payload size of \<open>2^62\<close> the
  first chunk is followed by the panic of \<open>generatePayload\<close>, and no string is returned.
\<close>

theorem executeIOWork_breaks_on_large_inputs:
  "map_option (\<lambda>(r, w). (r, map sint (slept w)))
     (executeIOWork stub_externals 100000000000000 0 still_world) =
     Some (''slept_100000000000000ms'', replicate 10 (- 8446744073709551616)) \<and>
   (- 8446744073709551616 :: int) \<noteq> (100000000000000 div 10) * 1000000 \<and>
   executeIOWork stub_externals 15 4611686018427387904 still_world = None"
proof -
  have f0: "sint (0 :: go_int) \<le> 0 \<or> payload_fits stub_externals 0" by simp
  from executeIOWork_returns[OF f0, of 100000000000000 still_world]
  obtain w' where r: "executeIOWork stub_externals 100000000000000 0 still_world =
       Some (''slept_'' @ decimal (sint (100000000000000 :: go_int)) @ ''ms'', w')"
    and sl: "slept w' = slept still_world @ replicate 10 (go_div 100000000000000 10 * Millisecond)"
    by auto
  have d: "decimal (sint (100000000000000 :: go_int)) = ''100000000000000''"
    by (simp add: decimal_def digit_char_def)
  have c: "sint (go_div 100000000000000 10 * Millisecond) = - 8446744073709551616"
    by (simp add: go_div_def Millisecond_def)
  have 1: "map_option (\<lambda>(r, w). (r, map sint (slept w)))
     (executeIOWork stub_externals 100000000000000 0 still_world) =
     Some (''slept_100000000000000ms'', replicate 10 (- 8446744073709551616))"
    using r sl d c by (simp add: still_world_def)
  have "\<not> payload_fits stub_externals 4611686018427387904"
    by (simp add: payload_fits_def data_size_def go_div_def stub_externals_def Let_def)
  then have 2: "executeIOWork stub_externals 15 4611686018427387904 still_world = None"
    by (intro executeIOWork_panics) simp_all
  from 1 2 show ?thesis by simp
qed

subsection \<open>Validation and response of Execute\<close>

lemma Execute_invalid:
  assumes "RequestID req = [] \<or> (Mode req \<noteq> ModeCPU \<and> Mode req \<noteq> ModeIO) \<or>
           sint (WorkFactor req) < 0 \<or> sint (PayloadSizeBytes req) < 0"
  shows "\<exists>e w'. Execute ext req protocol w = Some (Inl e, w')"
  using assms by (auto simp: Execute_def Let_def split_beta)

lemma Execute_valid:
  fixes w :: world and ext :: externals and req :: Request
  assumes "RequestID req \<noteq> []" "Mode req = ModeCPU \<or> Mode req = ModeIO"
          "0 \<le> sint (WorkFactor req)" "0 \<le> sint (PayloadSizeBytes req)"
  shows "Execute ext req protocol w =
           (case (if Mode req = ModeCPU
                  then executeCPUWork ext (WorkFactor req) (PayloadSizeBytes req) (snd (Now w))
                  else executeIOWork ext (WorkFactor req) (PayloadSizeBytes req) (snd (Now w))) of
              None \<Rightarrow> None
            | Some rw \<Rightarrow>
                Some (Inr (fst (respond ext req protocol (fst (Now w)) rw)),
                      snd (respond ext req protocol (fst (Now w)) rw)))"
  using assms by (auto simp: Execute_def Let_def split_beta split: option.splits)

lemma respond_fields:
  "fst (respond ext req protocol start (result, w2)) =
     \<lparr>resp_RequestID = RequestID req, resp_Mode = Mode req,
      resp_WorkFactor = WorkFactor req, resp_PayloadSizeBytes = PayloadSizeBytes req,
      Result = result,
      ServerProcessingMs = real_of_int ((fst (Now w2) - start) sdiv 1000) / 1000,
      Protocol = protocol,
      Timestamp = RFC3339Nano ext (fst (Now (snd (Now w2))))\<rparr>"
  by (simp add: respond_def Let_def split_beta)

lemma executeCPUWork_returns:
  assumes "sint p \<le> 0 \<or> payload_fits ext p"
  shows "\<exists>w'. executeCPUWork ext n p w =
           Some (hex (take 8 ((Sum256 ext ^^ nat (sint n)) seed_data)), w')"
  using executeCPUWork_result[OF assms, of n w]
  by (cases "executeCPUWork ext n p w") auto

text \<open>
  \<open>Execute\<close> within the memory of the process: it returns an
  error, and no response, exactly when the identifier is empty, the mode is neither
  \<open>cpu\<close> nor \<open>io\<close>, the work factor is negative or the payload size is negative; on
  every other request it returns a response that echoes the four request fields and
  the caller's protocol name, with the result string of the workload of its mode and
  the whole microseconds between the clock reading at entry and the one after the
  workload, in milliseconds.
\<close>

lemma Execute_within_memory:
  assumes fits: "sint (PayloadSizeBytes req) \<le> 0 \<or> payload_fits ext (PayloadSizeBytes req)"
  shows "((\<exists>e w'. Execute ext req protocol w = Some (Inl e, w')) \<longleftrightarrow>
      (RequestID req = [] \<or> (Mode req \<noteq> ModeCPU \<and> Mode req \<noteq> ModeIO) \<or>
       sint (WorkFactor req) < 0 \<or> sint (PayloadSizeBytes req) < 0)) \<and>
   (RequestID req \<noteq> [] \<and> (Mode req = ModeCPU \<or> Mode req = ModeIO) \<and>
    0 \<le> sint (WorkFactor req) \<and> 0 \<le> sint (PayloadSizeBytes req) \<longrightarrow>
      (\<exists>resp w' result w2. Execute ext req protocol w = Some (Inr resp, w') \<and>
          (if Mode req = ModeCPU
           then executeCPUWork ext (WorkFactor req) (PayloadSizeBytes req) (snd (Now w))
           else executeIOWork ext (WorkFactor req) (PayloadSizeBytes req) (snd (Now w)))
            = Some (result, w2) \<and>
          resp_RequestID resp = RequestID req \<and> resp_Mode resp = Mode req \<and>
          resp_WorkFactor resp = WorkFactor req \<and>
          resp_PayloadSizeBytes resp = PayloadSizeBytes req \<and>
          Protocol resp = protocol \<and> Result resp = result \<and>
          ServerProcessingMs resp =
            real_of_int ((fst (Now w2) - fst (Now w)) sdiv 1000) / 1000))"
proof -
  let ?bad = "RequestID req = [] \<or> (Mode req \<noteq> ModeCPU \<and> Mode req \<noteq> ModeIO) \<or>
       sint (WorkFactor req) < 0 \<or> sint (PayloadSizeBytes req) < 0"
  let ?work = "if Mode req = ModeCPU
           then executeCPUWork ext (WorkFactor req) (PayloadSizeBytes req) (snd (Now w))
           else executeIOWork ext (WorkFactor req) (PayloadSizeBytes req) (snd (Now w))"
  have ok: "\<exists>resp w' result w2. Execute ext req protocol w = Some (Inr resp, w') \<and>
          ?work = Some (result, w2) \<and>
          resp_RequestID resp = RequestID req \<and> resp_Mode resp = Mode req \<and>
          resp_WorkFactor resp = WorkFactor req \<and>
          resp_PayloadSizeBytes resp = PayloadSizeBytes req \<and>
          Protocol resp = protocol \<and> Result resp = result \<and>
          ServerProcessingMs resp =
            real_of_int ((fst (Now w2) - fst (Now w)) sdiv 1000) / 1000"
    if v: "\<not> ?bad"
  proof -
    from v have v': "RequestID req \<noteq> []" "Mode req = ModeCPU \<or> Mode req = ModeIO"
          "0 \<le> sint (WorkFactor req)" "0 \<le> sint (PayloadSizeBytes req)"
      by auto
    obtain result w2 where wk: "?work = Some (result, w2)"
      using executeCPUWork_returns[OF fits, of "WorkFactor req" "snd (Now w)"]
        executeIOWork_returns[OF fits, of "WorkFactor req" "snd (Now w)"]
      by (cases "Mode req = ModeCPU") auto
    have "Execute ext req protocol w =
        Some (Inr (fst (respond ext req protocol (fst (Now w)) (result, w2))),
              snd (respond ext req protocol (fst (Now w)) (result, w2)))"
      unfolding Execute_valid[OF v'] wk by simp
    with wk show ?thesis by (simp add: respond_fields)
  qed
  have "(\<exists>e w'. Execute ext req protocol w = Some (Inl e, w')) \<longleftrightarrow> ?bad"
  proof
    assume "\<exists>e w'. Execute ext req protocol w = Some (Inl e, w')"
    then show ?bad using ok by (cases ?bad) auto
  next
    assume ?bad
    then show "\<exists>e w'. Execute ext req protocol w = Some (Inl e, w')"
      by (rule Execute_invalid)
  qed
  moreover have "RequestID req \<noteq> [] \<and> (Mode req = ModeCPU \<or> Mode req = ModeIO) \<and>
    0 \<le> sint (WorkFactor req) \<and> 0 \<le> sint (PayloadSizeBytes req) \<Longrightarrow> \<not> ?bad"
    by auto
  ultimately show ?thesis using ok by blast
qed

text \<open>
  Claim C7, where the code breaks it. The request with the identifier \<open>test\<close>, the
  mode \<open>io\<close>, the work factor 15 and the payload size \<open>2^62\<close> passes the four checks of
  \<open>Execute\<close>, and \<open>Execute\<close> returns neither a response nor an error for it: the io
  workload generates a payload in its first round, and \<open>make\<close> panics on a slice of
  \<open>2^61\<close> bytes.
\<close>

theorem Execute_panics_on_huge_payload:
  "RequestID huge_payload_request \<noteq> [] \<and>
   (Mode huge_payload_request = ModeCPU \<or> Mode huge_payload_request = ModeIO) \<and>
   0 \<le> sint (WorkFactor huge_payload_request) \<and>
   0 \<le> sint (PayloadSizeBytes huge_payload_request) \<and>
   Execute stub_externals huge_payload_request ''rest'' still_world = None"
proof -
  have v: "RequestID huge_payload_request \<noteq> []"
    "Mode huge_payload_request = ModeCPU \<or> Mode huge_payload_request = ModeIO"
    "0 \<le> sint (WorkFactor huge_payload_request)"
    "0 \<le> sint (PayloadSizeBytes huge_payload_request)"
    by (simp_all add: huge_payload_request_def)
  have m: "Mode huge_payload_request \<noteq> ModeCPU"
    by (simp add: huge_payload_request_def ModeIO_def ModeCPU_def)
  have "\<not> payload_fits stub_externals (PayloadSizeBytes huge_payload_request)"
    by (simp add: payload_fits_def data_size_def go_div_def stub_externals_def Let_def
        huge_payload_request_def)
  moreover have "0 < sint (PayloadSizeBytes huge_payload_request)"
    by (simp add: huge_payload_request_def)
  ultimately have "executeIOWork stub_externals (WorkFactor huge_payload_request)
      (PayloadSizeBytes huge_payload_request) (snd (Now still_world)) = None"
    by (intro executeIOWork_panics)
  then have "Execute stub_externals huge_payload_request ''rest'' still_world = None"
    unfolding Execute_valid[OF v] using m by simp
  with v show ?thesis by simp
qed

lemma io_request_executes:
  "\<exists>resp w'. Execute stub_externals io_request ''test'' still_world = Some (Inr resp, w') \<and>
      resp_RequestID resp = ''test-2'' \<and> Result resp = ''slept_50ms'' \<and>
      Protocol resp = ''test''"
proof -
  have d50: "decimal 50 = ''50''" by (simp add: decimal_def digit_char_def)
  have fits: "sint (PayloadSizeBytes io_request) \<le> 0 \<or>
      payload_fits stub_externals (PayloadSizeBytes io_request)"
    by (simp add: payload_fits_def data_size_def go_div_def stub_externals_def Let_def
        io_request_def)
  have m: "Mode io_request \<noteq> ModeCPU"
    by (simp add: io_request_def ModeIO_def ModeCPU_def)
  have v: "RequestID io_request \<noteq> [] \<and> (Mode io_request = ModeCPU \<or> Mode io_request = ModeIO) \<and>
      0 \<le> sint (WorkFactor io_request) \<and> 0 \<le> sint (PayloadSizeBytes io_request)"
    by (simp add: io_request_def)
  from Execute_within_memory[OF fits, of "''test''" still_world] v m
  obtain resp w' result w2 where
    r: "Execute stub_externals io_request ''test'' still_world = Some (Inr resp, w')"
       "executeIOWork stub_externals (WorkFactor io_request)
          (PayloadSizeBytes io_request) (snd (Now still_world)) = Some (result, w2)"
       "resp_RequestID resp = RequestID io_request" "Protocol resp = ''test''"
       "Result resp = result"
    by auto
  from executeIOWork_returns[OF fits, of "WorkFactor io_request" "snd (Now still_world)"] r(2)
  have "result = ''slept_'' @ decimal (sint (WorkFactor io_request)) @ ''ms''" by auto
  then have "result = ''slept_50ms''" using d50 by (simp add: io_request_def)
  with r show ?thesis by (auto simp: io_request_def)
qed

section \<open>Workers and phases\<close>

subsection \<open>The worker and the deadline\<close>




lemma worker_done:
  "Done ctx now \<Longrightarrow> worker (Suc fuel) pause lib cfg ctx wid collect now rid sent = Some (sent, now, rid)"
  by simp


















subsection \<open>Results on their way to the collector\<close>

lemma pending_update:
  "i < length ws \<Longrightarrow>
   mset (pending (ws[i := w])) + mset (pending [ws ! i]) = mset (pending ws) + mset (pending [w])"
proof (induction ws arbitrary: i)
  case Nil
  then show ?case by simp
next
  case (Cons a ws)
  show ?case
  proof (cases i)
    case 0
    then show ?thesis by (cases a; cases w) simp_all
  next
    case (Suc j)
    with Cons.prems have "j < length ws" by simp
    from Cons.IH[OF this] Suc show ?thesis by (cases a) simp_all
  qed
qed

lemma fire_bag:
  assumes "fire a s = Some s'" and "ph_collector s \<noteq> None"
  shows "bag s' = bag s + mset (finished [a]) \<and> ph_collector s' \<noteq> None"
proof (cases a)
  case Expire
  with assms show ?thesis by (auto simp: bag_def split: if_splits)
next
  case (Poll i)
  with assms pending_update[of i "ph_workers s"] show ?thesis
    by (auto simp: bag_def split: if_splits wstate.splits)
next
  case (Finish i st fin err)
  with assms pending_update[of i "ph_workers s"] show ?thesis
    by (auto simp: bag_def split: if_splits wstate.splits)
next
  case (Send i)
  with assms pending_update[of i "ph_workers s"] show ?thesis
    by (auto simp: bag_def Add_def split: if_splits wstate.splits option.splits)
next
  case Recv
  with assms show ?thesis
    by (auto simp: bag_def Add_def split: if_splits option.splits list.splits)
next
  case DrainExit
  with assms show ?thesis by (auto simp: bag_def split: if_splits)
next
  case Close
  with assms show ?thesis by (auto simp: bag_def split: if_splits)
next
  case Return
  with assms show ?thesis by (auto simp: bag_def split: if_splits)
qed

lemma finished_append: "finished (as @ bs) = finished as @ finished bs"
  by (induction as rule: finished.induct) simp_all

lemma exec_bag:
  "exec as s = Some s' \<Longrightarrow> ph_collector s \<noteq> None \<Longrightarrow>
   bag s' = bag s + mset (finished as) \<and> ph_collector s' \<noteq> None"
proof (induction as arbitrary: s)
  case Nil
  then show ?case by simp
next
  case (Cons a as)
  from Cons.prems(1) obtain s1 where f: "fire a s = Some s1" and e: "exec as s1 = Some s'"
    by (auto split: option.splits)
  from fire_bag[OF f Cons.prems(2)] have b: "bag s1 = bag s + mset (finished [a])"
    and c: "ph_collector s1 \<noteq> None" by simp_all
  from Cons.IH[OF e c] b finished_append[of "[a]" as] show ?case by simp
qed

lemma list_all_Exited_nth:
  "list_all (\<lambda>w. w = Exited) ws \<Longrightarrow> i < length ws \<Longrightarrow> ws ! i = Exited"
  by (simp add: list_all_length)

lemma pending_Nil_update:
  "pending ws = [] \<Longrightarrow> pending [w] = [] \<Longrightarrow> pending (ws[i := w]) = []"
proof (induction ws arbitrary: i)
  case Nil
  then show ?case by simp
next
  case (Cons a ws)
  then show ?case by (cases i; cases a; cases w) simp_all
qed

lemma pending_Nil_nth:
  "pending ws = [] \<Longrightarrow> i < length ws \<Longrightarrow> ws ! i \<noteq> Sending k r"
proof (induction ws arbitrary: i)
  case Nil
  then show ?case by simp
next
  case (Cons a ws)
  then show ?case by (cases i; cases a) simp_all
qed

lemma pending_replicate_Polling: "pending (replicate n (Polling k)) = []"
  by (induction n) simp_all

lemma fire_PollE:
  assumes "fire (Poll i) s = Some s'"
  obtains k where "i < length (ph_workers s)" "ph_workers s ! i = Polling k"
    "s' = s\<lparr>ph_workers := (ph_workers s)[i := (if ph_expired s then Exited else InFlight (Suc k))]\<rparr>"
  using assms by (auto split: if_splits wstate.splits)

lemma fire_FinishE:
  assumes "fire (Finish i st fin err) s = Some s'"
  obtains k where "i < length (ph_workers s)" "ph_workers s ! i = InFlight k"
    "s' = s\<lparr>ph_workers := (ph_workers s)[i := (if ph_collector s \<noteq> None
                              then Sending k (mk_result st fin err) else Polling k)]\<rparr>"
  using assms by (auto split: if_splits wstate.splits)

lemma fire_SendE:
  assumes "fire (Send i) s = Some s'"
  obtains
    (panic) k r where "i < length (ph_workers s)" "ph_workers s ! i = Sending k r"
      "ph_closed s" "s' = s\<lparr>ph_panic := True\<rparr>"
  | (buffer) k r where "i < length (ph_workers s)" "ph_workers s ! i = Sending k r"
      "\<not> ph_closed s" "length (ph_chan s) < ph_cap s"
      "s' = s\<lparr>ph_chan := ph_chan s @ [r], ph_workers := (ph_workers s)[i := Polling k]\<rparr>"
  | (handoff) k r c where "i < length (ph_workers s)" "ph_workers s ! i = Sending k r"
      "\<not> ph_closed s" "\<not> length (ph_chan s) < ph_cap s" "ph_cap s = 0" "\<not> ph_drained s"
      "ph_collector s = Some c"
      "s' = s\<lparr>ph_collector := Some (Add c r), ph_workers := (ph_workers s)[i := Polling k]\<rparr>"
proof -
  from assms obtain k r where i: "i < length (ph_workers s)" and w: "ph_workers s ! i = Sending k r"
    by (auto split: if_splits wstate.splits)
  show thesis
  proof (cases "ph_closed s")
    case True
    with assms i w have "s' = s\<lparr>ph_panic := True\<rparr>" by simp
    with i w True show thesis by (rule panic)
  next
    case nc: False
    show thesis
    proof (cases "length (ph_chan s) < ph_cap s")
      case True
      with assms i w nc
      have "s' = s\<lparr>ph_chan := ph_chan s @ [r], ph_workers := (ph_workers s)[i := Polling k]\<rparr>"
        by simp
      with i w nc True show thesis by (rule buffer)
    next
      case full: False
      with assms i w nc have c0: "ph_cap s = 0" and nd: "\<not> ph_drained s"
        by (auto split: if_splits)
      with assms i w nc full obtain c where c: "ph_collector s = Some c"
        by (cases "ph_collector s") simp_all
      with assms i w nc full c0 nd
      have "s' = s\<lparr>ph_collector := Some (Add c r), ph_workers := (ph_workers s)[i := Polling k]\<rparr>"
        by simp
      with i w nc full c0 nd c show thesis by (rule handoff)
    qed
  qed
qed

lemma fire_RecvE:
  assumes "fire Recv s = Some s'"
  obtains c r rest where "ph_collector s = Some c" "\<not> ph_drained s" "ph_chan s = r # rest"
    "s' = s\<lparr>ph_chan := rest, ph_collector := Some (Add c r)\<rparr>"
proof -
  from assms obtain c where c: "ph_collector s = Some c" by (cases "ph_collector s") simp_all
  from assms c have nd: "\<not> ph_drained s" by (auto split: if_splits)
  from assms c nd obtain r rest where ch: "ph_chan s = r # rest" by (cases "ph_chan s") simp_all
  from assms c nd ch have "s' = s\<lparr>ph_chan := rest, ph_collector := Some (Add c r)\<rparr>" by simp
  with c nd ch show thesis by (rule that)
qed

lemma good_workers_Sending:
  assumes "good s" "i < length (ph_workers s)" "ph_workers s ! i = Sending k r"
  shows "\<not> ph_closed s" and "ph_collector s \<noteq> None"
proof -
  show "\<not> ph_closed s"
    using assms list_all_Exited_nth[of "ph_workers s" i] by (auto simp: good_def)
  show "ph_collector s \<noteq> None"
    using assms pending_Nil_nth[of "ph_workers s" i k r] by (auto simp: good_def)
qed

lemma good_workers_not_Exited:
  assumes "good s" "i < length (ph_workers s)" "ph_workers s ! i \<noteq> Exited"
  shows "\<not> ph_closed s" "\<not> ph_drained s" "\<not> ph_returned s"
proof -
  show c: "\<not> ph_closed s"
    using assms list_all_Exited_nth[of "ph_workers s" i] by (auto simp: good_def)
  show "\<not> ph_drained s" using c assms(1) by (auto simp: good_def)
  show "\<not> ph_returned s" using c assms(1) by (auto simp: good_def)
qed

lemma fire_good:
  assumes "fire a s = Some s'" and "good s"
  shows "good s'"
proof (cases a)
  case Expire
  with assms(1) have "s' = s\<lparr>ph_expired := True\<rparr>" by (simp split: if_splits)
  with assms(2) show ?thesis by (simp add: good_def)
next
  case (Poll i)
  from assms(1)[unfolded Poll] show ?thesis
  proof (rule fire_PollE)
    fix k
    assume i: "i < length (ph_workers s)" and w: "ph_workers s ! i = Polling k"
      and s': "s' = s\<lparr>ph_workers := (ph_workers s)
                 [i := (if ph_expired s then Exited else InFlight (Suc k))]\<rparr>"
    have ne: "ph_workers s ! i \<noteq> Exited" using w by simp
    note nx = good_workers_not_Exited[OF assms(2) i ne]
    have "pending [if ph_expired s then Exited else InFlight (Suc k)] = []" by simp
    then have "pending (ph_workers s) = [] \<Longrightarrow>
         pending ((ph_workers s)[i := (if ph_expired s then Exited else InFlight (Suc k))]) = []"
      by (rule pending_Nil_update[rotated])
    then show ?thesis using assms(2) nx unfolding s' good_def by simp
  qed
next
  case (Finish i st fin err)
  from assms(1)[unfolded Finish] show ?thesis
  proof (rule fire_FinishE)
    fix k
    assume i: "i < length (ph_workers s)" and w: "ph_workers s ! i = InFlight k"
      and s': "s' = s\<lparr>ph_workers := (ph_workers s)[i := (if ph_collector s \<noteq> None
                              then Sending k (mk_result st fin err) else Polling k)]\<rparr>"
    have ne: "ph_workers s ! i \<noteq> Exited" using w by simp
    note nx = good_workers_not_Exited[OF assms(2) i ne]
    have "pending (ph_workers s) = [] \<Longrightarrow> pending ((ph_workers s)[i := Polling k]) = []"
      by (rule pending_Nil_update) simp_all
    then show ?thesis using assms(2) nx unfolding s' good_def by simp
  qed
next
  case (Send i)
  from assms(1)[unfolded Send] show ?thesis
  proof (cases rule: fire_SendE)
    case (panic k r)
    with good_workers_Sending(1)[OF assms(2) panic(1,2)] show ?thesis by simp
  next
    case (buffer k r)
    have ne: "ph_workers s ! i \<noteq> Exited" using buffer(2) by simp
    note nx = good_workers_not_Exited[OF assms(2) buffer(1) ne]
    note co = good_workers_Sending(2)[OF assms(2) buffer(1,2)]
    show ?thesis using assms(2) nx co buffer(4) unfolding buffer(5) good_def by simp
  next
    case (handoff k r c)
    have ne: "ph_workers s ! i \<noteq> Exited" using handoff(2) by simp
    note nx = good_workers_not_Exited[OF assms(2) handoff(1) ne]
    show ?thesis using assms(2) nx handoff(7) unfolding handoff(8) good_def by simp
  qed
next
  case Recv
  from assms(1)[unfolded Recv] show ?thesis
  proof (rule fire_RecvE)
    fix c r rest
    assume c: "ph_collector s = Some c" and nd: "\<not> ph_drained s" and ch: "ph_chan s = r # rest"
      and s': "s' = s\<lparr>ph_chan := rest, ph_collector := Some (Add c r)\<rparr>"
    show ?thesis using assms(2) c nd ch unfolding s' good_def by simp
  qed
next
  case DrainExit
  with assms(1) have "s' = s\<lparr>ph_drained := True\<rparr>" and "ph_closed s" "ph_chan s = []"
    by (simp_all split: if_splits)
  with assms(2) show ?thesis by (simp add: good_def)
next
  case Close
  with assms(1) have "s' = s\<lparr>ph_closed := True\<rparr>"
    and "list_all (\<lambda>w. w = Exited) (ph_workers s)" "\<not> ph_closed s"
    by (simp_all split: if_splits)
  with assms(2) show ?thesis by (simp add: good_def)
next
  case Return
  with assms(1) have "s' = s\<lparr>ph_returned := True\<rparr>"
    and "ph_closed s" "ph_collector s = None \<or> ph_drained s"
    by (simp_all split: if_splits)
  with assms(2) show ?thesis by (auto simp: good_def)
qed

lemma exec_good: "exec as s = Some s' \<Longrightarrow> good s \<Longrightarrow> good s'"
proof (induction as arbitrary: s)
  case Nil
  then show ?case by simp
next
  case (Cons a as)
  from Cons.prems(1) obtain s1 where f: "fire a s = Some s1" and e: "exec as s1 = Some s'"
    by (auto split: option.splits)
  from Cons.IH[OF e fire_good[OF f Cons.prems(2)]] show ?case .
qed

lemma init_good: "init_phase cfg coll = Some s \<Longrightarrow> good s"
  by (auto simp: init_phase_def good_def pending_replicate_Polling split: if_splits)

lemma fire_no_collector:
  "fire a s = Some s' \<Longrightarrow> ph_collector s = None \<Longrightarrow> ph_collector s' = None"
  by (cases a) (auto split: if_splits wstate.splits option.splits)

lemma exec_no_collector:
  "exec as s = Some s' \<Longrightarrow> ph_collector s = None \<Longrightarrow> ph_collector s' = None"
proof (induction as arbitrary: s)
  case Nil
  then show ?case by simp
next
  case (Cons a as)
  from Cons.prems(1) obtain s1 where f: "fire a s = Some s1" and e: "exec as s1 = Some s'"
    by (auto split: option.splits)
  from Cons.IH[OF e fire_no_collector[OF f Cons.prems(2)]] show ?case .
qed

lemma pending_all_Exited: "list_all (\<lambda>w. w = Exited) ws \<Longrightarrow> pending ws = []"
  by (induction ws) auto

lemma runPhaseE:
  assumes "runPhase cfg coll sched = Some s"
  obtains s0 where "init_phase cfg coll = Some s0" "exec sched s0 = Some s" "ph_returned s"
  using assms unfolding runPhase_def by (auto split: option.splits if_splits)

lemma init_phase_fields:
  assumes "init_phase cfg coll = Some s0"
  shows "ph_collector s0 = coll" "ph_chan s0 = []" "pending (ph_workers s0) = []"
  using assms by (auto simp: init_phase_def pending_replicate_Polling split: if_splits)

lemma phase_without_collector:
  assumes i: "init_phase cfg None = Some s0" and e: "exec sched s0 = Some s"
  shows "ph_collector s = None \<and> ph_chan s = [] \<and> pending (ph_workers s) = []"
proof -
  have "ph_collector s = None"
    using exec_no_collector[OF e] init_phase_fields(1)[OF i] by simp
  moreover have "good s" using exec_good[OF e init_good[OF i]] .
  ultimately show ?thesis by (simp add: good_def)
qed

lemma runPhase_collecting:
  assumes "runPhase cfg (Some c0) sched = Some s"
  shows "\<exists>c. ph_collector s = Some c \<and>
             mset (results c) = mset (results c0) + mset (finished sched) \<and>
             list_all (\<lambda>w. w = Exited) (ph_workers s) \<and> ph_chan s = [] \<and>
             ph_closed s \<and> ph_drained s"
proof -
  from assms obtain s0 where i: "init_phase cfg (Some c0) = Some s0"
    and e: "exec sched s0 = Some s" and r: "ph_returned s"
    by (rule runPhaseE)
  note f = init_phase_fields[OF i]
  have g: "good s" using exec_good[OF e init_good[OF i]] .
  from exec_bag[OF e] f(1) have b: "bag s = bag s0 + mset (finished sched)"
    and cn: "ph_collector s \<noteq> None" by simp_all
  then obtain c where c: "ph_collector s = Some c" by auto
  from g r c have cl: "ph_closed s" and dr: "ph_drained s" by (auto simp: good_def)
  from g cl dr have ex: "list_all (\<lambda>w. w = Exited) (ph_workers s)" and ch: "ph_chan s = []"
    by (auto simp: good_def)
  have "bag s0 = mset (results c0)" using f by (simp add: bag_def)
  moreover have "bag s = mset (results c)"
    using c ch pending_all_Exited[OF ex] by (simp add: bag_def)
  ultimately have "mset (results c) = mset (results c0) + mset (finished sched)"
    using b by simp
  with c ex ch cl dr show ?thesis by blast
qed

lemma Aggregate_total:
  "\<exists>st. Aggregate c d = Some st \<and> TotalRequests st = length (results c)"
proof (cases "results c = []")
  case True
  then show ?thesis by (simp add: Aggregate_def zero_stats_def)
next
  case False
  from Aggregate_nonempty_rates[OF False, of d] show ?thesis by blast
qed

text \<open>
  Claim C6. When \<open>Run\<close> has returned a collector, and so when \<open>Aggregate\<close> is called
  on it, the collector holds exactly the results of the requests that returned in the
  measurement phase, none lost and none twice; in the final state of that phase every
  worker has returned, the channel is closed and empty and the drain has ended. The
  warmup phase has at no time a collector, a result in its channel or a result held by
  a worker, so none of its requests is counted: the total of the statistics is the number of
  requests that returned in the measurement phase.
\<close>

theorem Run_collects_measurement:
  assumes "Run cfg warmup measurement = Some c"
  shows "mset (results c) = mset (finished measurement) \<and>
         (\<exists>s1. runPhase cfg None warmup = Some s1) \<and>
         (\<forall>n s0 s. init_phase cfg None = Some s0 \<and> exec (take n warmup) s0 = Some s \<longrightarrow>
               ph_collector s = None \<and> ph_chan s = [] \<and> pending (ph_workers s) = []) \<and>
         (\<exists>s2. runPhase cfg (Some NewCollector) measurement = Some s2 \<and>
               ph_collector s2 = Some c \<and>
               list_all (\<lambda>w. w = Exited) (ph_workers s2) \<and> ph_chan s2 = [] \<and>
               ph_closed s2 \<and> ph_drained s2) \<and>
         (\<exists>st. Aggregate c d = Some st \<and> TotalRequests st = length (finished measurement))"
proof -
  from assms obtain s1 s2 where w: "runPhase cfg None warmup = Some s1"
    and m: "runPhase cfg (Some NewCollector) measurement = Some s2"
    and c: "ph_collector s2 = Some c"
    unfolding Run_def by (auto split: option.splits)
  from runPhase_collecting[OF m] c
  have eq: "mset (results c) = mset (finished measurement)"
    and rest: "list_all (\<lambda>w. w = Exited) (ph_workers s2)" "ph_chan s2 = []"
      "ph_closed s2" "ph_drained s2"
    by (auto simp: NewCollector_def)
  from eq have "length (results c) = length (finished measurement)" by (rule mset_eq_length)
  with Aggregate_total[of c d]
  have "\<exists>st. Aggregate c d = Some st \<and> TotalRequests st = length (finished measurement)"
    by simp
  moreover have "\<forall>n s0 s. init_phase cfg None = Some s0 \<and> exec (take n warmup) s0 = Some s \<longrightarrow>
               ph_collector s = None \<and> ph_chan s = [] \<and> pending (ph_workers s) = []"
    using phase_without_collector by blast
  ultimately show ?thesis using eq w m c rest by blast
qed

lemma Run_two_workers:
  "Run two_workers warmup_schedule measurement_schedule =
     Some \<lparr>results = [mk_result 0 2000000 None, mk_result 0 3000000 None,
                      mk_result 2000000 6000000 (Some ''reset'')]\<rparr>"
  by (simp add: Run_def runPhase_def init_phase_def two_workers_def rest_config_def
      warmup_schedule_def measurement_schedule_def NewCollector_def Add_def eval_nat_numeral)

theorem Run_collects_measurement_witness:
  "Run two_workers warmup_schedule measurement_schedule =
     Some \<lparr>results = [mk_result 0 2000000 None, mk_result 0 3000000 None,
                      mk_result 2000000 6000000 (Some ''reset'')]\<rparr> \<and>
   finished warmup_schedule =
     [mk_result 0 4000000 None, mk_result 0 5000000 (Some ''refused'')] \<and>
   mset [mk_result 0 2000000 None, mk_result 0 3000000 None,
         mk_result 2000000 6000000 (Some ''reset'')] = mset (finished measurement_schedule) \<and>
   (\<exists>st. Aggregate \<lparr>results = [mk_result 0 2000000 None, mk_result 0 3000000 None,
                      mk_result 2000000 6000000 (Some ''reset'')]\<rparr> 30000000000 = Some st \<and>
         TotalRequests st = 3)"
proof -
  note h = Run_collects_measurement[OF Run_two_workers, of 30000000000]
  have f: "finished warmup_schedule =
      [mk_result 0 4000000 None, mk_result 0 5000000 (Some ''refused'')]"
    by (simp add: warmup_schedule_def)
  have l: "length (finished measurement_schedule) = 3"
    by (simp add: measurement_schedule_def)
  from h[THEN conjunct1]
  have m: "mset [mk_result 0 2000000 None, mk_result 0 3000000 None,
         mk_result 2000000 6000000 (Some ''reset'')] = mset (finished measurement_schedule)"
    by simp
  from h l have a: "\<exists>st. Aggregate \<lparr>results = [mk_result 0 2000000 None,
        mk_result 0 3000000 None, mk_result 2000000 6000000 (Some ''reset'')]\<rparr>
        30000000000 = Some st \<and> TotalRequests st = 3"
    by auto
  show ?thesis using Run_two_workers f m a by blast
qed

subsection \<open>Many producers and the bounded buffer\<close>

lemma fire_shape:
  assumes "fire a s = Some s'"
  shows "ph_cap s' = ph_cap s \<and> length (ph_workers s') = length (ph_workers s)"
proof (cases a)
  case Expire
  with assms show ?thesis by (auto split: if_splits)
next
  case (Poll i)
  from assms[unfolded Poll] show ?thesis by (rule fire_PollE) simp
next
  case (Finish i st fin err)
  from assms[unfolded Finish] show ?thesis by (rule fire_FinishE) simp
next
  case (Send i)
  from assms[unfolded Send] show ?thesis by (rule fire_SendE) simp_all
next
  case Recv
  from assms[unfolded Recv] show ?thesis by (rule fire_RecvE) simp
next
  case DrainExit
  with assms show ?thesis by (auto split: if_splits)
next
  case Close
  with assms show ?thesis by (auto split: if_splits)
next
  case Return
  with assms show ?thesis by (auto split: if_splits)
qed

lemma exec_shape:
  "exec as s = Some s' \<Longrightarrow>
   ph_cap s' = ph_cap s \<and> length (ph_workers s') = length (ph_workers s)"
proof (induction as arbitrary: s)
  case Nil
  then show ?case by simp
next
  case (Cons a as)
  from Cons.prems obtain s1 where f: "fire a s = Some s1" and e: "exec as s1 = Some s'"
    by (auto split: option.splits)
  from Cons.IH[OF e] fire_shape[OF f] show ?case by simp
qed

lemma init_phase_shape:
  assumes "init_phase cfg coll = Some s0"
  shows "ph_cap s0 = nat (sint (cfg_Concurrency cfg * 10))"
    and "length (ph_workers s0) = nat (sint (cfg_Concurrency cfg))"
  using assms by (auto simp: init_phase_def split: if_splits)

lemma ten_per_worker:
  fixes c :: go_int
  assumes "0 \<le> sint c" "sint c \<le> 922337203685477580"
  shows "nat (sint (c * 10)) = 10 * nat (sint c)"
proof -
  have "sint (c * 10) = signed_take_bit 63 (sint c * sint (10 :: go_int))"
    by (simp add: sint_word_ariths)
  also have "sint (10 :: go_int) = 10" by simp
  also have "signed_take_bit 63 (sint c * 10) = sint c * 10"
    using assms by (intro signed_take_bit_int_eq_self) simp_all
  finally show ?thesis using assms by simp
qed

text \<open>A worker at its send in a good state of a collecting phase: the send can be
  taken, or the buffer is full and the send can be taken after one step of the drain.\<close>

lemma send_released:
  assumes g: "good s" and i: "i < length (ph_workers s)"
    and w: "ph_workers s ! i = Sending k r"
  shows "(\<exists>s'. fire (Send i) s = Some s' \<and> \<not> ph_panic s' \<and> ph_workers s' ! i = Polling k) \<or>
         (fire (Send i) s = None \<and> length (ph_chan s) = ph_cap s \<and>
          (\<exists>s1 s2. fire Recv s = Some s1 \<and> fire (Send i) s1 = Some s2 \<and>
                   \<not> ph_panic s2 \<and> ph_workers s2 ! i = Polling k))"
proof -
  note nc = good_workers_Sending[OF g i w]
  have ne: "ph_workers s ! i \<noteq> Exited" using w by simp
  note nx = good_workers_not_Exited[OF g i ne]
  from nc(2) obtain c where c: "ph_collector s = Some c" by auto
  from g have np: "\<not> ph_panic s" and le: "length (ph_chan s) \<le> ph_cap s"
    by (simp_all add: good_def)
  show ?thesis
  proof (cases "length (ph_chan s) < ph_cap s")
    case True
    with i w nc(1) np show ?thesis by simp
  next
    case full: False
    with le have eq: "length (ph_chan s) = ph_cap s" by simp
    show ?thesis
    proof (cases "ph_cap s = 0")
      case True
      with i w nc(1) np nx(2) c full show ?thesis by simp
    next
      case False
      with eq obtain r0 rest where ch: "ph_chan s = r0 # rest" by (cases "ph_chan s") simp_all
      let ?s1 = "s\<lparr>ph_chan := rest, ph_collector := Some (Add c r0)\<rparr>"
      have r: "fire Recv s = Some ?s1" using c nx(2) ch by simp
      have b: "fire (Send i) s = None" using i w nc(1) full False by simp
      have lt: "length (ph_chan ?s1) < ph_cap ?s1" using eq ch by simp
      have "fire (Send i) ?s1 =
          Some (?s1\<lparr>ph_chan := ph_chan ?s1 @ [r], ph_workers := (ph_workers ?s1)[i := Polling k]\<rparr>)"
        using i w nc(1) lt by simp
      with r b eq np i show ?thesis by simp
    qed
  qed
qed

text \<open>
  Claim C8. The producers of a collecting phase are its workers, and what they call at
  the same time is the send on the channel; \<open>Collector.Add\<close> itself is called by the one
  goroutine that drains the channel. Under every interleaving of the steps of workers
  and drain no result is lost and none is duplicated: at every moment the results added
  to the collector, those in the buffer and those held by workers at their send are
  together exactly the results of the requests that have returned, and no send panics.
  The buffer is bounded by its capacity, \<open>Concurrency * 10\<close>, ten for each worker as long
  as the product does not overflow. A send does not block for good: a worker at its
  send either can send at once, or the buffer is full, and then the drain can take a
  step, after which the worker can send.
\<close>

theorem concurrent_add_conserves_results:
  assumes "init_phase cfg (Some c0) = Some s0" and "exec schedule s0 = Some s"
  shows "(\<exists>c. ph_collector s = Some c \<and>
              mset (results c) + mset (ph_chan s) + mset (pending (ph_workers s)) =
              mset (results c0) + mset (finished schedule)) \<and>
         \<not> ph_panic s \<and>
         length (ph_chan s) \<le> ph_cap s \<and>
         ph_cap s = nat (sint (cfg_Concurrency cfg * 10)) \<and>
         length (ph_workers s) = nat (sint (cfg_Concurrency cfg)) \<and>
         (0 \<le> sint (cfg_Concurrency cfg) \<and> sint (cfg_Concurrency cfg) \<le> 922337203685477580 \<longrightarrow>
            ph_cap s = 10 * length (ph_workers s)) \<and>
         (\<forall>i k r. i < length (ph_workers s) \<and> ph_workers s ! i = Sending k r \<longrightarrow>
            (\<exists>s'. fire (Send i) s = Some s' \<and> \<not> ph_panic s' \<and> ph_workers s' ! i = Polling k) \<or>
            (fire (Send i) s = None \<and> length (ph_chan s) = ph_cap s \<and>
             (\<exists>s1 s2. fire Recv s = Some s1 \<and> fire (Send i) s1 = Some s2 \<and>
                      \<not> ph_panic s2 \<and> ph_workers s2 ! i = Polling k)))"
proof -
  note f = init_phase_fields[OF assms(1)]
  note sh0 = init_phase_shape[OF assms(1)]
  note sh = exec_shape[OF assms(2)]
  have g: "good s" using exec_good[OF assms(2) init_good[OF assms(1)]] .
  from exec_bag[OF assms(2)] f(1) have b: "bag s = bag s0 + mset (finished schedule)"
    and cn: "ph_collector s \<noteq> None" by simp_all
  then obtain c where c: "ph_collector s = Some c" by auto
  have "bag s0 = mset (results c0)" using f by (simp add: bag_def)
  with b c have cons: "mset (results c) + mset (ph_chan s) + mset (pending (ph_workers s)) =
              mset (results c0) + mset (finished schedule)"
    by (simp add: bag_def)
  have cap: "ph_cap s = nat (sint (cfg_Concurrency cfg * 10))"
    and len: "length (ph_workers s) = nat (sint (cfg_Concurrency cfg))"
    using sh sh0 by simp_all
  have ten: "0 \<le> sint (cfg_Concurrency cfg) \<and> sint (cfg_Concurrency cfg) \<le> 922337203685477580 \<longrightarrow>
            ph_cap s = 10 * length (ph_workers s)"
    using ten_per_worker[of "cfg_Concurrency cfg"] cap len by simp
  from g have np: "\<not> ph_panic s" and le: "length (ph_chan s) \<le> ph_cap s"
    by (simp_all add: good_def)
  show ?thesis using c cons np le cap len ten send_released[OF g] by blast
qed

lemma full_buffer_reached:
  "init_phase two_workers (Some NewCollector) =
     Some \<lparr>ph_workers = [Polling 0, Polling 0], ph_chan = [], ph_cap = 20, ph_closed = False,
           ph_expired = False, ph_collector = Some NewCollector, ph_drained = False,
           ph_returned = False, ph_panic = False\<rparr>"
  "exec full_buffer_schedule
     \<lparr>ph_workers = [Polling 0, Polling 0], ph_chan = [], ph_cap = 20, ph_closed = False,
      ph_expired = False, ph_collector = Some NewCollector, ph_drained = False,
      ph_returned = False, ph_panic = False\<rparr> = Some full_buffer"
  by (simp_all add: init_phase_def two_workers_def rest_config_def full_buffer_schedule_def
        full_buffer_def NewCollector_def eval_nat_numeral)


theorem concurrent_add_conserves_results_witness:
  "init_phase two_workers (Some NewCollector) =
     Some \<lparr>ph_workers = [Polling 0, Polling 0], ph_chan = [], ph_cap = 20, ph_closed = False,
           ph_expired = False, ph_collector = Some NewCollector, ph_drained = False,
           ph_returned = False, ph_panic = False\<rparr> \<and>
   exec full_buffer_schedule
     \<lparr>ph_workers = [Polling 0, Polling 0], ph_chan = [], ph_cap = 20, ph_closed = False,
      ph_expired = False, ph_collector = Some NewCollector, ph_drained = False,
      ph_returned = False, ph_panic = False\<rparr> = Some full_buffer \<and>
   ph_collector full_buffer = Some NewCollector \<and>
   mset (results NewCollector) + mset (ph_chan full_buffer) +
     mset (pending (ph_workers full_buffer)) =
     mset (results NewCollector) + mset (finished full_buffer_schedule) \<and>
   length (finished full_buffer_schedule) = 22 \<and>
   0 \<le> sint (cfg_Concurrency two_workers) \<and>
   sint (cfg_Concurrency two_workers) \<le> 922337203685477580 \<and>
   ph_cap full_buffer = 10 * length (ph_workers full_buffer) \<and>
   1 < length (ph_workers full_buffer) \<and>
   ph_workers full_buffer ! 0 = Sending 11 (mk_result 0 1000000 None) \<and>
   ph_workers full_buffer ! 1 = Sending 11 (mk_result 0 2000000 None) \<and>
   fire (Send 1) full_buffer = None \<and>
   length (ph_chan full_buffer) = ph_cap full_buffer \<and>
   (\<exists>s1 s2. fire Recv full_buffer = Some s1 \<and> fire (Send 1) s1 = Some s2 \<and>
            \<not> ph_panic s2 \<and> ph_workers s2 ! 1 = Polling 11)"
proof -
  note h = concurrent_add_conserves_results[OF full_buffer_reached]
  have c: "ph_collector full_buffer = Some NewCollector" by (simp add: full_buffer_def)
  from h c have cons: "mset (results NewCollector) + mset (ph_chan full_buffer) +
     mset (pending (ph_workers full_buffer)) =
     mset (results NewCollector) + mset (finished full_buffer_schedule)"
    by simp
  have n: "length (finished full_buffer_schedule) = 22"
    by (simp add: full_buffer_schedule_def eval_nat_numeral)
  have b: "0 \<le> sint (cfg_Concurrency two_workers)"
      "sint (cfg_Concurrency two_workers) \<le> 922337203685477580"
    by (simp_all add: two_workers_def)
  with h have ten: "ph_cap full_buffer = 10 * length (ph_workers full_buffer)" by blast
  have w: "1 < length (ph_workers full_buffer)"
      "ph_workers full_buffer ! 0 = Sending 11 (mk_result 0 1000000 None)"
      "ph_workers full_buffer ! 1 = Sending 11 (mk_result 0 2000000 None)"
    by (simp_all add: full_buffer_def)
  have blocked: "fire (Send 1) full_buffer = None"
    by (simp add: full_buffer_def eval_nat_numeral)
  from h w(1,3) have "(\<exists>s'. fire (Send 1) full_buffer = Some s' \<and> \<not> ph_panic s' \<and>
          ph_workers s' ! 1 = Polling 11) \<or>
      (fire (Send 1) full_buffer = None \<and> length (ph_chan full_buffer) = ph_cap full_buffer \<and>
       (\<exists>s1 s2. fire Recv full_buffer = Some s1 \<and> fire (Send 1) s1 = Some s2 \<and>
                \<not> ph_panic s2 \<and> ph_workers s2 ! 1 = Polling 11))"
    by blast
  with blocked have rel: "length (ph_chan full_buffer) = ph_cap full_buffer"
      "\<exists>s1 s2. fire Recv full_buffer = Some s1 \<and> fire (Send 1) s1 = Some s2 \<and>
            \<not> ph_panic s2 \<and> ph_workers s2 ! 1 = Polling 11"
    by simp_all
  show ?thesis using full_buffer_reached c cons n b ten w blocked rel by blast
qed

end
